theory Spec2Isabelle
  imports Complex_Main
begin

section \<open>Numbers and strings of the host language\<close>

text \<open>
  The program is TypeScript; its numbers are IEEE doubles. The embedding computes over
  \<^typ>\<open>real\<close>: every arithmetic operation is the exact one, so a statement proved here
  is a statement about the program's arithmetic before rounding. Integer-valued numbers
  that the code obtains from \<open>Math.round\<close> of a non-negative value (\<open>pInt\<close>, \<open>q\<close>,
  \<open>num\<close>, \<open>den\<close>, \<open>i\<close>) are \<^typ>\<open>nat\<close>. Strings are byte strings; the one non-ASCII
  character of the program, the radical sign U+221A, is the three bytes of its UTF-8
  encoding.
\<close>

definition radic :: string where
  "radic = [CHR 0xE2, CHR 0x88, CHR 0x9A]"

definition digit_char :: "nat \<Rightarrow> char" where
  "digit_char d = ''0123456789'' ! d"

text \<open>
  \<open>Number.prototype.toString\<close> on a non-negative integer below \<open>10^21\<close>: its decimal
  digits, most significant first, no leading zero (above \<open>10^21\<close> the host switches to
  exponent notation, which no statement below depends on).
\<close>

function num_toString :: "nat \<Rightarrow> string" where
  "num_toString n =
     (if n < 10 then [digit_char n]
      else num_toString (n div 10) @ [digit_char (n mod 10)])"
  by pat_completeness auto
termination
  by (relation "measure id") auto

declare num_toString.simps [simp del]

text \<open>
  \<open>Number.prototype.toFixed(f)\<close> on a number of magnitude below \<open>10^21\<close>: the sign is
  split off, \<open>n\<close> is the integer nearest to \<open>x * 10^f\<close> (the larger one on a tie, which
  is \<^const>\<open>round\<close>), its digits are padded with zeros to \<open>f + 1\<close> characters and the
  point goes before the last \<open>f\<close>. From \<open>10^21\<close> on the host returns the exponent notation
  of \<open>toString\<close> instead, which this definition does not give: a statement about a
  standard form, whose digits are those of \<open>toFixed\<close>, carries the bound \<open>|x| < 10^21\<close>
  on the numbers it renders.
\<close>

definition pad_zeros :: "nat \<Rightarrow> string \<Rightarrow> string" where
  "pad_zeros k s = replicate (k - length s) (CHR ''0'') @ s"

definition toFixed :: "real \<Rightarrow> nat \<Rightarrow> string" where
  "toFixed x f =
     (let s = (if x < 0 then ''-'' else '''');
          n = nat (round (\<bar>x\<bar> * 10 ^ f));
          m = num_toString n
      in if f = 0 then s @ m
         else (let d = pad_zeros (f + 1) m; k = length d
               in s @ take (k - f) d @ ''.'' @ drop (k - f) d))"

section \<open>The smart numeric formatter (components/ResultPanel.tsx)\<close>

definition ABS_TOLERANCE :: real where
  "ABS_TOLERANCE = 1 / 100000"

text \<open>\<open>gcd(a, b) = b === 0 ? a : gcd(b, a % b)\<close>, called on \<open>pInt\<close> and \<open>q\<close> only.\<close>

function gcd_js :: "nat \<Rightarrow> nat \<Rightarrow> nat" where
  "gcd_js a b = (if b = 0 then a else gcd_js b (a mod b))"
  by pat_completeness auto
termination
  by (relation "measure (\<lambda>(a, b). b)") auto

declare gcd_js.simps [simp del]

record root =
  coeff :: nat
  rad :: nat

text \<open>
  The loop of \<open>simplifyRoot\<close>: \<open>for (i = ...; i >= 1; i--)\<close>, returning at the first
  \<open>i\<close> whose square divides \<open>n\<close>; the statement after the loop returns \<open>(1, n)\<close>.
\<close>

function simplifyRoot_loop :: "nat \<Rightarrow> nat \<Rightarrow> root" where
  "simplifyRoot_loop n i =
     (if i \<ge> 1 then
        (if n mod (i * i) = 0 then \<lparr>coeff = i, rad = n div (i * i)\<rparr>
         else simplifyRoot_loop n (i - 1))
      else \<lparr>coeff = 1, rad = n\<rparr>)"
  by pat_completeness auto
termination
  by (relation "measure (\<lambda>(n, i). i)") auto

declare simplifyRoot_loop.simps [simp del]

definition simplifyRoot :: "nat \<Rightarrow> root" where
  "simplifyRoot n = simplifyRoot_loop n (nat \<lfloor>sqrt (real n)\<rfloor>)"

definition rootStr :: "root \<Rightarrow> string" where
  "rootStr r =
     (if coeff r = 1 then radic @ num_toString (rad r)
      else num_toString (coeff r) @ radic @ num_toString (rad r))"

text \<open>The body of the radical loop once \<open>sq * q\<close> has been found near the integer \<open>pInt\<close>.\<close>

definition radicalStr :: "string \<Rightarrow> nat \<Rightarrow> nat \<Rightarrow> string" where
  "radicalStr sign pInt q =
     (let common = gcd_js pInt q;
          num = pInt div common;
          den = q div common;
          sNum = simplifyRoot num;
          sDen = simplifyRoot den;
          numStr = (if rad sNum = 1 then num_toString (coeff sNum) else rootStr sNum)
      in if rad sDen = 1 then
           (if coeff sDen = 1 then sign @ numStr
            else sign @ numStr @ ''/'' @ num_toString (coeff sDen))
         else sign @ numStr @ ''/'' @ rootStr sDen)"

definition fractionStr :: "string \<Rightarrow> nat \<Rightarrow> nat \<Rightarrow> string" where
  "fractionStr sign pInt q =
     (let common = gcd_js pInt q
      in sign @ num_toString (pInt div common) @ ''/'' @ num_toString (q div common))"

definition near_int :: "real \<Rightarrow> bool" where
  "near_int p = (\<bar>p - of_int (round p)\<bar> < ABS_TOLERANCE)"

text \<open>\<open>for (let q = 2; q <= 50; q++)\<close>, entered at \<open>q = 2\<close>; \<open>None\<close> when the loop ends.\<close>

function fractionLoop :: "string \<Rightarrow> real \<Rightarrow> nat \<Rightarrow> string option" where
  "fractionLoop sign absVal q =
     (if q \<le> 50 then
        (let p = absVal * real q
         in if near_int p then Some (fractionStr sign (nat (round p)) q)
            else fractionLoop sign absVal (q + 1))
      else None)"
  by pat_completeness auto
termination
  by (relation "measure (\<lambda>(sign, absVal, q). 51 - q)") auto

declare fractionLoop.simps [simp del]

text \<open>\<open>for (let q = 1; q <= 100; q++)\<close>, entered at \<open>q = 1\<close>.\<close>

function radicalLoop :: "string \<Rightarrow> real \<Rightarrow> nat \<Rightarrow> string option" where
  "radicalLoop sign sq q =
     (if q \<le> 100 then
        (let p = sq * real q
         in if near_int p then Some (radicalStr sign (nat (round p)) q)
            else radicalLoop sign sq (q + 1))
      else None)"
  by pat_completeness auto
termination
  by (relation "measure (\<lambda>(sign, sq, q). 101 - q)") auto

declare radicalLoop.simps [simp del]

definition formatSmart :: "real \<Rightarrow> string" where
  "formatSmart v =
     (if \<bar>v\<bar> < ABS_TOLERANCE then ''0''
      else
        (let sign = (if v < 0 then ''-'' else '''');
             absVal = \<bar>v\<bar>
         in if near_int absVal then sign @ num_toString (nat (round absVal))
            else
              (case fractionLoop sign absVal 2 of
                 Some s \<Rightarrow> s
               | None \<Rightarrow>
                   (case radicalLoop sign (absVal * absVal) 1 of
                      Some s \<Rightarrow> s
                    | None \<Rightarrow> toFixed v 4))))"

section \<open>The quadric classifier (services/mathService.ts)\<close>

subsection \<open>Data\<close>

record Coefficients =
  a11 :: real
  a22 :: real
  a33 :: real
  a12 :: real
  a23 :: real
  a13 :: real
  b1 :: real
  b2 :: real
  b3 :: real
  c :: real

datatype CenterType = Point | Line | Plane | NoneCenter | Unknown

record AnalysisResult =
  eigenvalues :: "real list"
  rotationMatrix :: "real list list"
  translationVector :: "real list"
  standardForm :: string
  centerType :: CenterType
  surfaceType :: string

text \<open>
  The eigensolver \<open>math.eigs\<close> is not code of the program: it is a parameter of the
  model. It returns the fields \<open>values\<close> and \<open>vectors\<close> (the eigenvectors are the columns
  of \<open>vectors\<close>), here \<open>eig_values\<close> and \<open>eig_vectors\<close>, or throws, which is \<open>None\<close>.
  \<open>math.re\<close> is the identity on the reals.
\<close>

record eigs_result =
  eig_values :: "real list"
  eig_vectors :: "real list list"

type_synonym eigensolver = "real list list \<Rightarrow> eigs_result option"

type_synonym determinant = "real list list \<Rightarrow> real"

datatype error = ComputationError | ShapeError

record eigPair =
  val :: real
  vec :: "real list"

subsection \<open>Linear algebra of the library\<close>

text \<open>
  \<open>math.transpose\<close> and \<open>math.multiply\<close> are the transpose and the matrix-vector
  product; the program applies them to 3 by 3 matrices and vectors of length 3 only.
  \<open>math.det\<close> is a parameter of the model, as the eigensolver is: the library
  eliminates in doubles, and what it returns need not have the sign of the determinant.
  The determinant itself is \<open>det3\<close>; it states what the program is meant to achieve.
\<close>

definition dot :: "real list \<Rightarrow> real list \<Rightarrow> real" where
  "dot u w = sum_list (map2 (*) u w)"

definition mat_vec :: "real list list \<Rightarrow> real list \<Rightarrow> real list" where
  "mat_vec m w = map (\<lambda>row. dot row w) m"

definition column :: "nat \<Rightarrow> real list list \<Rightarrow> real list" where
  "column j m = map (\<lambda>row. row ! j) m"

definition transposeM :: "real list list \<Rightarrow> real list list" where
  "transposeM m = map (\<lambda>j. column j m) [0..<3]"

definition mat_mul :: "real list list \<Rightarrow> real list list \<Rightarrow> real list list" where
  "mat_mul m n = map (\<lambda>row. map (\<lambda>j. dot row (column j n)) [0..<3]) m"

fun det3 :: "real list list \<Rightarrow> real" where
  "det3 [[m00, m01, m02], [m10, m11, m12], [m20, m21, m22]] =
     m00 * (m11 * m22 - m12 * m21) - m01 * (m10 * m22 - m12 * m20)
       + m02 * (m10 * m21 - m11 * m20)"
| "det3 _ = 0"

definition I3 :: "real list list" where
  "I3 = [[1, 0, 0], [0, 1, 0], [0, 0, 1]]"

subsection \<open>1. The matrix \<open>A\<close> and the vector \<open>J\<close>\<close>

definition matrixA :: "Coefficients \<Rightarrow> real list list" where
  "matrixA co =
     [[a11 co, a12 co / 2, a13 co / 2],
      [a12 co / 2, a22 co, a23 co / 2],
      [a13 co / 2, a23 co / 2, a33 co]]"

definition vectorJ :: "Coefficients \<Rightarrow> real list" where
  "vectorJ co = [b1 co, b2 co, b3 co]"

text \<open>The first of the two versions of the file puts the cross coefficients in whole.\<close>

definition matrixA_v1 :: "Coefficients \<Rightarrow> real list list" where
  "matrixA_v1 co =
     [[a11 co, a12 co, a13 co],
      [a12 co, a22 co, a23 co],
      [a13 co, a23 co, a33 co]]"

subsection \<open>2. Eigenpairs, sorted, and the rotation\<close>

text \<open>
  The program reads three eigenvalues and a 3 by 3 matrix, which is what the solver
  returns for the 3 by 3 matrix \<open>A\<close>; on a shorter answer it would read \<open>undefined\<close> and
  throw. An answer of any other shape is \<open>ShapeError\<close> in the model.
\<close>

definition well_shaped :: "eigs_result \<Rightarrow> bool" where
  "well_shaped ans =
     (length (eig_values ans) = 3 \<and> length (eig_vectors ans) = 3 \<and>
      list_all (\<lambda>row. length row = 3) (eig_vectors ans))"

text \<open>\<open>eigenvalues.map((val, idx) => ({val, vec: [vectors[0][idx], ...]}))\<close>\<close>

definition mkPairs :: "eigs_result \<Rightarrow> eigPair list" where
  "mkPairs ans =
     map (\<lambda>(v, idx). \<lparr>val = v,
            vec = [eig_vectors ans ! 0 ! idx, eig_vectors ans ! 1 ! idx,
                   eig_vectors ans ! 2 ! idx]\<rparr>)
       (zip (eig_values ans) [0..<length (eig_values ans)])"

text \<open>
  \<open>eigPairs.sort((a, b) => b.val - a.val)\<close>: the host's sort is stable, and a stable
  sort by descending \<open>val\<close> has one result, which insertion by the key \<open>- val\<close> computes.
\<close>

definition sortPairs :: "eigPair list \<Rightarrow> eigPair list" where
  "sortPairs ps = sort_key (\<lambda>p. - val p) ps"

definition assembleM :: "eigPair list \<Rightarrow> real list list" where
  "assembleM ps =
     [[vec (ps ! 0) ! 0, vec (ps ! 1) ! 0, vec (ps ! 2) ! 0],
      [vec (ps ! 0) ! 1, vec (ps ! 1) ! 1, vec (ps ! 2) ! 1],
      [vec (ps ! 0) ! 2, vec (ps ! 1) ! 2, vec (ps ! 2) ! 2]]"

text \<open>
  \<open>if (detM < 0) { M[0][2] *= -1; M[1][2] *= -1; M[2][2] *= -1 }\<close>, where \<open>detM\<close> is
  what the library's \<open>math.det\<close>, here \<open>dt\<close>, returns on \<open>M\<close>.
\<close>

definition flipThird :: "real list list \<Rightarrow> real list list" where
  "flipThird m = map (\<lambda>row. row[2 := row ! 2 * (- 1)]) m"

definition orient :: "determinant \<Rightarrow> real list list \<Rightarrow> real list list" where
  "orient dt m = (if dt m < 0 then flipThird m else m)"

subsection \<open>3. Completing the square\<close>

definition epsilon :: real where
  "epsilon = 1 / 100000"

record square_state =
  S :: "real list"
  c_prime :: real
  linearVars :: "nat list"

text \<open>The body of \<open>for (let i = 0; i < 3; i++)\<close>.\<close>

definition squareStep :: "real list \<Rightarrow> real list \<Rightarrow> square_state \<Rightarrow> nat \<Rightarrow> square_state" where
  "squareStep evs J_prime st i =
     (let lambda = evs ! i; ji = J_prime ! i
      in if \<bar>lambda\<bar> > epsilon then
           st\<lparr>S := (S st)[i := - ji / (2 * lambda)],
              c_prime := c_prime st - (ji * ji) / (4 * lambda)\<rparr>
         else if \<bar>ji\<bar> > epsilon then
           st\<lparr>S := (S st)[i := - c_prime st / ji],
              c_prime := 0,
              linearVars := linearVars st @ [i]\<rparr>
         else st\<lparr>S := (S st)[i := 0]\<rparr>)"

definition completeSquare :: "real list \<Rightarrow> real list \<Rightarrow> real \<Rightarrow> square_state" where
  "completeSquare evs J_prime c0 =
     foldl (squareStep evs J_prime) \<lparr>S = [0, 0, 0], c_prime = c0, linearVars = []\<rparr> [0..<3]"

text \<open>The loop of the first version of the file.\<close>

definition squareStep_v1 :: "real list \<Rightarrow> real list \<Rightarrow> square_state \<Rightarrow> nat \<Rightarrow> square_state" where
  "squareStep_v1 evs B_tilde st i =
     (let lambda = evs ! i; bi = B_tilde ! i
      in if \<bar>lambda\<bar> > epsilon then
           st\<lparr>S := (S st)[i := - bi / lambda],
              c_prime := c_prime st - (bi * bi) / lambda\<rparr>
         else if \<bar>bi\<bar> > epsilon then
           st\<lparr>S := (S st)[i := - c_prime st / (2 * bi)],
              c_prime := 0,
              linearVars := linearVars st @ [i]\<rparr>
         else st\<lparr>S := (S st)[i := 0]\<rparr>)"

definition completeSquare_v1 :: "real list \<Rightarrow> real list \<Rightarrow> real \<Rightarrow> square_state" where
  "completeSquare_v1 evs B_tilde c0 =
     foldl (squareStep_v1 evs B_tilde) \<lparr>S = [0, 0, 0], c_prime = c0, linearVars = []\<rparr> [0..<3]"

subsection \<open>4. The standard form\<close>

definition vars :: "string list" where
  "vars = [[CHR ''x'', CHR 0x27], [CHR ''y'', CHR 0x27], [CHR ''z'', CHR 0x27]]"

text \<open>\<open>Array.prototype.join\<close> and \<open>String.prototype.trim\<close>.\<close>

fun join :: "string \<Rightarrow> string list \<Rightarrow> string" where
  "join sep [] = []"
| "join sep [t] = t"
| "join sep (t # u # ts) = t @ sep @ join sep (u # ts)"

definition is_ws :: "char \<Rightarrow> bool" where
  "is_ws ch = (ch = CHR '' '' \<or> ch = CHR 0x09 \<or> ch = CHR 0x0A \<or> ch = CHR 0x0B \<or>
               ch = CHR 0x0C \<or> ch = CHR 0x0D)"

definition trim :: "string \<Rightarrow> string" where
  "trim s = rev (dropWhile is_ws (rev (dropWhile is_ws s)))"

text \<open>The callback of \<open>eigenvalues.forEach((lam, i) => ...)\<close>.\<close>

definition quadTerm :: "string list \<Rightarrow> real \<Rightarrow> nat \<Rightarrow> string list" where
  "quadTerm terms lam i =
     (if \<bar>lam\<bar> > epsilon then
        (let sign = (if lam < 0 then ''-'' else if length terms > 0 then ''+'' else '''');
             v = \<bar>lam\<bar>;
             valStr = (if \<bar>v - 1\<bar> < 1 / 10000 then '''' else toFixed v 2)
         in terms @ [sign @ '' '' @ valStr @ vars ! i @ ''^2''])
      else terms)"

text \<open>The callback of \<open>linearVars.forEach(idx => ...)\<close>.\<close>

definition linTerm :: "real list \<Rightarrow> string list \<Rightarrow> nat \<Rightarrow> string list" where
  "linTerm J_prime terms idx =
     (let coef = J_prime ! idx;
          sign = (if coef < 0 then ''-'' else if length terms > 0 then ''+'' else '''');
          v = \<bar>coef\<bar>
      in terms @ [sign @ '' '' @ toFixed v 2 @ vars ! idx])"

definition constTerm :: "string list \<Rightarrow> real \<Rightarrow> string list" where
  "constTerm terms cp =
     (if \<bar>cp\<bar> > epsilon then
        (let sign = (if cp < 0 then ''-'' else if length terms > 0 then ''+'' else '''')
         in terms @ [sign @ '' '' @ toFixed \<bar>cp\<bar> 2])
      else terms)"

definition buildTerms :: "real list \<Rightarrow> real list \<Rightarrow> nat list \<Rightarrow> real \<Rightarrow> string list" where
  "buildTerms evs J_prime lin cp =
     (let t1 = foldl (\<lambda>terms (lam, i). quadTerm terms lam i) [] (zip evs [0..<length evs]);
          t2 = foldl (linTerm J_prime) t1 lin
      in constTerm t2 cp)"

definition renderStandardForm :: "real list \<Rightarrow> real list \<Rightarrow> nat list \<Rightarrow> real \<Rightarrow> string" where
  "renderStandardForm evs J_prime lin cp =
     (let terms = buildTerms evs J_prime lin cp
      in if length terms = 0 then ''0 = 0'' else trim (join '' '' terms) @ '' = 0'')"

subsection \<open>4. The classification\<close>

definition rank :: "real list \<Rightarrow> nat" where
  "rank evs = length (filter (\<lambda>v. \<bar>v\<bar> > epsilon) evs)"

definition sigPos :: "real list \<Rightarrow> nat" where
  "sigPos evs = length (filter (\<lambda>v. v > epsilon) evs)"

definition sigNeg :: "real list \<Rightarrow> nat" where
  "sigNeg evs = length (filter (\<lambda>v. v < - epsilon) evs)"

definition classify :: "real list \<Rightarrow> nat list \<Rightarrow> real \<Rightarrow> string" where
  "classify evs lin cp =
     (if length lin > 0 then
        (if rank evs = 2 then
           (if sigPos evs = 2 \<or> sigNeg evs = 2 then ''Elliptic Paraboloid''
            else ''Hyperbolic Paraboloid'')
         else if rank evs = 1 then ''Parabolic Cylinder''
         else ''General Quadric'')
      else
        (if rank evs = 3 then
           (if \<bar>cp\<bar> < epsilon then ''Cone (Real or Imaginary)''
            else
              (let rhs = - cp;
                   sameSign = length (filter (\<lambda>l. l * rhs > 0) evs)
               in if sameSign = 3 then ''Ellipsoid''
                  else if sameSign = 2 then ''Hyperboloid of One Sheet''
                  else if sameSign = 1 then ''Hyperboloid of Two Sheets''
                  else ''Imaginary Ellipsoid''))
         else if rank evs = 2 then
           (if \<bar>cp\<bar> < epsilon then
              (if sigPos evs = 2 \<or> sigNeg evs = 2 then ''Intersecting Planes (Imaginary)''
               else ''Intersecting Planes'')
            else (if sigPos evs = 2 \<or> sigNeg evs = 2 then ''Elliptic Cylinder''
                  else ''Hyperbolic Cylinder''))
         else if rank evs = 1 then
           (if \<bar>cp\<bar> < epsilon then ''Coincident Planes'' else ''Parallel Planes'')
         else ''General Quadric''))"

definition centerOf :: "real list \<Rightarrow> nat list \<Rightarrow> CenterType" where
  "centerOf evs lin =
     (if length lin > 0 then NoneCenter else (if rank evs = 3 then Point else Line))"

subsection \<open>The function \<open>analyzeSurface\<close>\<close>

text \<open>The values the program holds after each step, as functions of the solver's answer.\<close>

definition sortedPairs :: "eigs_result \<Rightarrow> eigPair list" where
  "sortedPairs ans = sortPairs (mkPairs ans)"

definition sortedValues :: "eigs_result \<Rightarrow> real list" where
  "sortedValues ans = map val (sortedPairs ans)"

definition rawM :: "eigs_result \<Rightarrow> real list list" where
  "rawM ans = assembleM (sortedPairs ans)"

definition rotationM :: "determinant \<Rightarrow> eigs_result \<Rightarrow> real list list" where
  "rotationM dt ans = orient dt (rawM ans)"

definition rotatedJ :: "determinant \<Rightarrow> eigs_result \<Rightarrow> Coefficients \<Rightarrow> real list" where
  "rotatedJ dt ans co = mat_vec (transposeM (rotationM dt ans)) (vectorJ co)"

definition squared :: "determinant \<Rightarrow> eigs_result \<Rightarrow> Coefficients \<Rightarrow> square_state" where
  "squared dt ans co = completeSquare (sortedValues ans) (rotatedJ dt ans co) (c co)"

definition analyze :: "determinant \<Rightarrow> eigs_result \<Rightarrow> Coefficients \<Rightarrow> AnalysisResult" where
  "analyze dt ans co =
     (let evs = sortedValues ans;
          m = rotationM dt ans;
          J_prime = rotatedJ dt ans co;
          st = squared dt ans co;
          tau = mat_vec m (S st)
      in \<lparr>eigenvalues = evs,
          rotationMatrix = m,
          translationVector = tau,
          standardForm = renderStandardForm evs J_prime (linearVars st) (c_prime st),
          centerType = centerOf evs (linearVars st),
          surfaceType = classify evs (linearVars st) (c_prime st)\<rparr>)"

definition analyzeSurface ::
  "eigensolver \<Rightarrow> determinant \<Rightarrow> Coefficients \<Rightarrow> error + AnalysisResult" where
  "analyzeSurface eigs dt co =
     (case eigs (matrixA co) of
        None \<Rightarrow> Inl ComputationError
      | Some ans \<Rightarrow> if well_shaped ans then Inr (analyze dt ans co) else Inl ShapeError)"

section \<open>The words of the specification, as definitions\<close>

text \<open>
  The step of the completing-the-square loop on one axis, as the specification words it:
  from the eigenvalue, the rotated linear coefficient and the constant so far, the shift
  \<open>S\<^sub>i\<close>, the constant afterwards and whether the axis is flagged parabolic.
\<close>

definition spec_axis :: "real \<Rightarrow> real \<Rightarrow> real \<Rightarrow> real \<times> real \<times> bool" where
  "spec_axis lam ji cp =
     (if \<bar>lam\<bar> > epsilon then (- ji / (2 * lam), cp - ji\<^sup>2 / (4 * lam), False)
      else if \<bar>ji\<bar> > epsilon then (- cp / ji, 0, True)
      else (0, cp, False))"

text \<open>The same for the loop of the first version of the file.\<close>

definition spec_axis_v1 :: "real \<Rightarrow> real \<Rightarrow> real \<Rightarrow> real \<times> real \<times> bool" where
  "spec_axis_v1 lam bi cp =
     (if \<bar>lam\<bar> > epsilon then (- bi / lam, cp - bi\<^sup>2 / lam, False)
      else if \<bar>bi\<bar> > epsilon then (- cp / (2 * bi), 0, True)
      else (0, cp, False))"

definition flagged :: "bool \<Rightarrow> bool \<Rightarrow> bool \<Rightarrow> nat list" where
  "flagged p0 p1 p2 = (if p0 then [0] else []) @ (if p1 then [1] else []) @ (if p2 then [2] else [])"

text \<open>
  The contract of the eigensolver (sections 3 and 4.2 of the specification): on the
  matrix \<open>m\<close> it returns three eigenvalues and a matrix whose columns are orthonormal,
  the \<open>k\<close>-th column being an eigenvector of \<open>m\<close> for the \<open>k\<close>-th eigenvalue.
\<close>

definition eigen_contract :: "eigensolver \<Rightarrow> real list list \<Rightarrow> bool" where
  "eigen_contract eigs m =
     (case eigs m of
        None \<Rightarrow> False
      | Some ans \<Rightarrow>
          well_shaped ans \<and>
          mat_mul (transposeM (eig_vectors ans)) (eig_vectors ans) = I3 \<and>
          list_all (\<lambda>k. mat_vec m (column k (eig_vectors ans)) =
                         map ((*) (eig_values ans ! k)) (column k (eig_vectors ans))) [0..<3])"

text \<open>
  The same up to a tolerance, which is how the specification words its invariants for
  doubles (\<open>M\<^sup>T M \<approx> I\<close>): every entry of \<open>M\<^sup>T M\<close> is within \<open>t\<close> of the entry of
  the identity, and every entry of \<open>m v\<close> within \<open>t\<close> of the entry of \<open>\<lambda> v\<close>.
\<close>

definition close_to :: "real \<Rightarrow> real list \<Rightarrow> real list \<Rightarrow> bool" where
  "close_to t u v = list_all2 (\<lambda>x y. \<bar>x - y\<bar> < t) u v"

definition orthonormal_within :: "real \<Rightarrow> real list list \<Rightarrow> bool" where
  "orthonormal_within t m = list_all2 (close_to t) (mat_mul (transposeM m) m) I3"

definition eigenpairs_within :: "real \<Rightarrow> eigs_result \<Rightarrow> real list list \<Rightarrow> bool" where
  "eigenpairs_within t ans m =
     list_all (\<lambda>k. close_to t (mat_vec m (column k (eig_vectors ans)))
                       (map ((*) (eig_values ans ! k)) (column k (eig_vectors ans)))) [0..<3]"

text \<open>
  The standard form as the specification words it. The terms are listed as pairs of a
  value and a body: one per axis whose eigenvalue exceeds the tolerance, in axis order,
  the body being the coefficient (left out when \<open>elide\<close> holds of it, otherwise to two
  decimals), the variable and \<open>^2\<close>; one per flagged axis, the rotated linear coefficient
  to two decimals and the variable; the constant to two decimals when it exceeds the
  tolerance. The claim elides the coefficient 1 (\<open>elide_exact\<close>); the program elides a
  coefficient within \<open>1e-4\<close> of 1 (\<open>elide_near\<close>).
\<close>

definition elide_exact :: "real \<Rightarrow> bool" where
  "elide_exact v = (v = 1)"

definition elide_near :: "real \<Rightarrow> bool" where
  "elide_near v = (\<bar>v - 1\<bar> < 1 / 10000)"

definition term_items ::
  "(real \<Rightarrow> bool) \<Rightarrow> real list \<Rightarrow> real list \<Rightarrow> nat list \<Rightarrow> real \<Rightarrow> (real \<times> string) list" where
  "term_items elide evs J_prime lin cp =
     map (\<lambda>i. (evs ! i,
            (if elide \<bar>evs ! i\<bar> then '''' else toFixed \<bar>evs ! i\<bar> 2) @ vars ! i @ ''^2''))
       (filter (\<lambda>i. \<bar>evs ! i\<bar> > epsilon) [0..<3])
     @ map (\<lambda>idx. (J_prime ! idx, toFixed \<bar>J_prime ! idx\<bar> 2 @ vars ! idx)) lin
     @ (if \<bar>cp\<bar> > epsilon then [(cp, toFixed \<bar>cp\<bar> 2)] else [])"

text \<open>
  The numbers that this rendering hands to \<open>toFixed\<close>: the magnitude of every eigenvalue
  above the tolerance whose coefficient is not left out, of the rotated linear coefficient
  of every flagged axis, and of the constant when it exceeds the tolerance.
\<close>

definition rendered ::
  "(real \<Rightarrow> bool) \<Rightarrow> real list \<Rightarrow> real list \<Rightarrow> nat list \<Rightarrow> real \<Rightarrow> real list" where
  "rendered elide evs J_prime lin cp =
     map (\<lambda>i. \<bar>evs ! i\<bar>)
       (filter (\<lambda>i. \<bar>evs ! i\<bar> > epsilon \<and> \<not> elide \<bar>evs ! i\<bar>) [0..<3])
     @ map (\<lambda>idx. \<bar>J_prime ! idx\<bar>) lin
     @ (if \<bar>cp\<bar> > epsilon then [\<bar>cp\<bar>] else [])"

text \<open>
  The terms joined: a negative value gives the sign \<open>-\<close>, any other value \<open>+\<close> unless the
  term is the first; no term at all gives \<open>0 = 0\<close>.
\<close>

definition spec_standardForm :: "(real \<times> string) list \<Rightarrow> string" where
  "spec_standardForm items =
     (case items of
        [] \<Rightarrow> ''0 = 0''
      | (v, b) # rest \<Rightarrow>
          (if v < 0 then ''- '' else '''') @ b
          @ concat (map (\<lambda>(w, d). (if w < 0 then '' - '' else '' + '') @ d) rest)
          @ '' = 0'')"

section \<open>Inputs and solver answers of the examples\<close>

definition coneCoeffs :: Coefficients where
  "coneCoeffs = \<lparr>a11 = 1, a22 = 1, a33 = - 1, a12 = 0, a23 = 0, a13 = 0,
     b1 = 0, b2 = 0, b3 = 0, c = 0\<rparr>"

definition sphereCoeffs :: Coefficients where
  "sphereCoeffs = \<lparr>a11 = 1, a22 = 1, a33 = 1, a12 = 0, a23 = 0, a13 = 0,
     b1 = 0, b2 = 0, b3 = 0, c = - 1\<rparr>"

definition zeroCoeffs :: Coefficients where
  "zeroCoeffs = \<lparr>a11 = 0, a22 = 0, a33 = 0, a12 = 0, a23 = 0, a13 = 0,
     b1 = 0, b2 = 0, b3 = 0, c = 0\<rparr>"

text \<open>
  Three answers a solver may give: the identity with a triple eigenvalue; for the cone
  \<open>x^2 + y^2 - z^2\<close>, the eigenvalue \<open>- 1\<close> first; and, for the same cone, the first two
  eigenvectors exchanged, which is a reflection. The matrices assembled from them have
  the entries 0 and 1 only; the elimination of \<open>math.det\<close> is exact on such a matrix, and
  the examples on them take \<open>det3\<close> for it.
\<close>

definition identitySolver :: "real \<Rightarrow> eigensolver" where
  "identitySolver e m = Some \<lparr>eig_values = [e, e, e], eig_vectors = I3\<rparr>"

definition swapSolver :: eigensolver where
  "swapSolver m = Some \<lparr>eig_values = [- 1, 1, 1],
     eig_vectors = [[0, 1, 0], [0, 0, 1], [1, 0, 0]]\<rparr>"

definition mirrorSolver :: eigensolver where
  "mirrorSolver m = Some \<lparr>eig_values = [1, 1, - 1],
     eig_vectors = [[0, 1, 0], [1, 0, 0], [0, 0, 1]]\<rparr>"

text \<open>An input whose one eigenvalue is within \<open>1e-4\<close> of 1 without being 1.\<close>

definition nearOneCoeffs :: Coefficients where
  "nearOneCoeffs = \<lparr>a11 = 100005 / 100000, a22 = 0, a33 = 0, a12 = 0, a23 = 0, a13 = 0,
     b1 = 0, b2 = 0, b3 = 0, c = 0\<rparr>"

definition nearOneAnswer :: eigs_result where
  "nearOneAnswer = \<lparr>eig_values = [100005 / 100000, 0, 0], eig_vectors = I3\<rparr>"

definition nearOneSolver :: eigensolver where
  "nearOneSolver m = Some nearOneAnswer"

text \<open>
  The quadric \<open>x^2 + 2y^2 + 2z^2 - 4xy - 4yz - 4xz = 0\<close>, and what the library returns
  on it, every double written as the rational it is. \<open>crossAnswer\<close> is the result of
  \<open>math.eigs\<close> on the matrix \<open>A\<close> of these coefficients (eigenvalues by ascending
  magnitude, about \<open>-2.372\<close>, \<open>3.372\<close> and \<open>4\<close>). The matrix assembled from it has the
  entry \<open>-5.09e-17\<close> in its corner; the elimination of \<open>math.det\<close> takes that entry as
  its first pivot and returns \<open>0.5449798847995208\<close> on the matrix, which \<open>crossDet\<close>
  records. On every other matrix \<open>crossDet\<close> is the determinant.
\<close>

definition crossCoeffs :: Coefficients where
  "crossCoeffs = \<lparr>a11 = 1, a22 = 2, a33 = 2, a12 = - 4, a23 = - 4, a13 = - 4,
     b1 = 0, b2 = 0, b3 = 0, c = 0\<rparr>"

definition crossAnswer :: eigs_result where
  "crossAnswer = \<lparr>eig_values =
       [- 5341902641746159 / 2251799813685248,
        7593702455431407 / 2251799813685248,
        9007199254740989 / 2251799813685248],
     eig_vectors =
       [[1447052836056559 / 2251799813685248,
         - 3450588639970627 / 4503599627370496,
         - 126095437011 / 2475880078570760549798248448],
        [2439934626408497 / 4503599627370496,
         2046441746221637 / 4503599627370496,
         - 1592262918131443 / 2251799813685248],
        [4879869252816993 / 9007199254740992,
         4092883492443273 / 9007199254740992,
         6369051672525773 / 9007199254740992]]\<rparr>"

definition crossSolver :: eigensolver where
  "crossSolver m = Some crossAnswer"

definition crossDet :: determinant where
  "crossDet m =
     (if m = rawM crossAnswer then 4908742412215075 / 9007199254740992 else det3 m)"

section \<open>Auxiliary definitions of the proofs\<close>

text \<open>
  A decidable certificate that \<open>x * q\<close> stays at least \<open>ABS_TOLERANCE\<close> away from every
  integer for all \<open>x\<close> between the rationals \<open>a / d\<close> and \<open>b / d\<close>: with
  \<open>n = \<lfloor>a * q / d\<rfloor>\<close>, both ends lie in \<open>[n + 1/100000, n + 1 - 1/100000]\<close>. It is
  stated over the integers so that it evaluates quickly.
\<close>

definition gap_ok :: "int \<Rightarrow> int \<Rightarrow> int \<Rightarrow> nat \<Rightarrow> bool" where
  "gap_ok a b d q =
     (let n = (a * int q) div d
      in n * d * 100000 + d \<le> a * int q * 100000 \<and>
         b * int q * 100000 + d \<le> (n + 1) * d * 100000)"

text \<open>
  What each of the three places that push a term does, the term pushed as a function of
  its position, and strings that \<open>trim\<close> leaves alone.
\<close>

definition pushTerm :: "string list \<Rightarrow> real \<times> string \<Rightarrow> string list" where
  "pushTerm terms item =
     terms @ [(if fst item < 0 then ''-'' else if length terms > 0 then ''+'' else '''')
              @ '' '' @ snd item]"

definition termOf :: "bool \<Rightarrow> real \<times> string \<Rightarrow> string" where
  "termOf first item =
     (if fst item < 0 then ''-'' else if first then '''' else ''+'') @ '' '' @ snd item"

definition solid :: "string \<Rightarrow> bool" where
  "solid s = (s \<noteq> [] \<and> \<not> is_ws (hd s) \<and> \<not> is_ws (last s))"

section \<open>Facts about the formatter\<close>

subsection \<open>Rounding and the tolerance test\<close>

lemma round_unique_near:
  fixes x :: real
  assumes "\<bar>x - of_int n\<bar> < 1 / 2"
  shows "round x = n"
  using assms unfolding round_def by linarith

lemma near_intI:
  assumes "\<bar>x - of_int n\<bar> < ABS_TOLERANCE"
  shows "near_int x" and "round x = n"
proof -
  have "\<bar>x - of_int n\<bar> < 1 / 2"
    using assms by (simp add: ABS_TOLERANCE_def)
  then show r: "round x = n" by (rule round_unique_near)
  show "near_int x" unfolding near_int_def r using assms .
qed

lemma not_near_intI:
  assumes "of_int n + ABS_TOLERANCE \<le> x" and "x \<le> of_int n + 1 - ABS_TOLERANCE"
  shows "\<not> near_int x"
proof -
  have "round x = n \<or> round x = n + 1"
    using assms unfolding round_def ABS_TOLERANCE_def by linarith
  then show ?thesis
    using assms unfolding near_int_def ABS_TOLERANCE_def by auto
qed

lemma fractionLoop_None:
  "(\<And>k. q \<le> k \<Longrightarrow> k \<le> 50 \<Longrightarrow> \<not> near_int (a * real k)) \<Longrightarrow> fractionLoop s a q = None"
proof (induction s a q rule: fractionLoop.induct)
  case (1 sign absVal q)
  show ?case
  proof (cases "q \<le> 50")
    case True
    then have n: "\<not> near_int (absVal * real q)" using 1(2) by simp
    have "fractionLoop sign absVal (q + 1) = None"
      using 1(1) [OF True refl n] 1(2) by simp
    then show ?thesis
      using True n by (subst fractionLoop.simps) simp
  next
    case False
    then show ?thesis by (subst fractionLoop.simps) simp
  qed
qed


lemma radicalLoop_None:
  "(\<And>k. q \<le> k \<Longrightarrow> k \<le> 100 \<Longrightarrow> \<not> near_int (a * real k)) \<Longrightarrow> radicalLoop s a q = None"
proof (induction s a q rule: radicalLoop.induct)
  case (1 sign sq q)
  show ?case
  proof (cases "q \<le> 100")
    case True
    then have n: "\<not> near_int (sq * real q)" using 1(2) by simp
    have "radicalLoop sign sq (q + 1) = None"
      using 1(1) [OF True refl n] 1(2) by simp
    then show ?thesis
      using True n by (subst radicalLoop.simps) simp
  next
    case False
    then show ?thesis by (subst radicalLoop.simps) simp
  qed
qed

lemma radicalLoop_Some:
  "q \<le> k \<Longrightarrow> k \<le> 100 \<Longrightarrow> near_int (a * real k) \<Longrightarrow>
   (\<And>j. q \<le> j \<Longrightarrow> j < k \<Longrightarrow> \<not> near_int (a * real j)) \<Longrightarrow>
   radicalLoop s a q = Some (radicalStr s (nat (round (a * real k))) k)"
proof (induction s a q rule: radicalLoop.induct)
  case (1 sign sq q)
  show ?case
  proof (cases "q = k")
    case True
    then show ?thesis using 1(3,4) by (subst radicalLoop.simps) simp
  next
    case False
    then have lt: "q < k" using 1(2) by simp
    then have q100: "q \<le> 100" using 1(3) by simp
    have n: "\<not> near_int (sq * real q)" using 1(5) lt by simp
    have "radicalLoop sign sq (q + 1) = Some (radicalStr sign (nat (round (sq * real k))) k)"
      using 1(1) [OF q100 refl n] lt 1(3,4,5) by simp
    then show ?thesis using q100 n by (subst radicalLoop.simps) simp
  qed
qed

lemma gcd_js_gcd: "gcd_js a b = gcd a b"
proof (induction a b rule: gcd_js.induct)
  case (1 a b)
  show ?case
  proof (cases "b = 0")
    case True
    then show ?thesis by (subst gcd_js.simps) simp
  next
    case False
    then show ?thesis
      using 1 by (subst gcd_js.simps) (simp add: gcd.commute [of a b] gcd_red_nat [symmetric])
  qed
qed


subsection \<open>Evaluating the number renderers\<close>

lemma num_toString_digit: "n < 10 \<Longrightarrow> num_toString n = [digit_char n]"
  by (subst num_toString.simps) simp

lemma num_toString_step:
  "10 \<le> n \<Longrightarrow> num_toString n = num_toString (n div 10) @ [digit_char (n mod 10)]"
  by (subst num_toString.simps) simp

lemmas num_toString_eval = num_toString_digit num_toString_step digit_char_def

lemma toFixed_pos:
  "0 \<le> x \<Longrightarrow> f \<noteq> 0 \<Longrightarrow> toFixed x f =
     (let d = pad_zeros (f + 1) (num_toString (nat (round (x * 10 ^ f))))
      in take (length d - f) d @ ''.'' @ drop (length d - f) d)"
  by (simp add: toFixed_def Let_def)

lemma toFixed_digits:
  assumes "0 \<le> x" and "f \<noteq> 0" and r: "round (x * 10 ^ f) = int n"
    and m: "num_toString n = m" and d: "pad_zeros (f + 1) m = d"
  shows "toFixed x f = take (length d - f) d @ ''.'' @ drop (length d - f) d"
  unfolding toFixed_pos [OF assms(1,2)] r nat_int m d Let_def ..

subsection \<open>Square roots of small numbers\<close>

lemma simplifyRoot_0: "simplifyRoot 0 = \<lparr>coeff = 1, rad = 0\<rparr>"
  by (simp add: simplifyRoot_def simplifyRoot_loop.simps)

lemma simplifyRoot_1: "simplifyRoot (Suc 0) = \<lparr>coeff = 1, rad = 1\<rparr>"
  by (simp add: simplifyRoot_def simplifyRoot_loop.simps)

lemma radicalStr_0_1: "radicalStr s 0 (Suc 0) = s @ radic @ ''0''"
  by (simp add: radicalStr_def gcd_js_gcd simplifyRoot_0 simplifyRoot_1 rootStr_def
      num_toString_eval)

subsection \<open>The ladder of \<open>formatSmart\<close>, rung by rung\<close>




lemma ladder_fallback:
  assumes "ABS_TOLERANCE \<le> \<bar>v\<bar>"
    and "\<And>j. 1 \<le> j \<Longrightarrow> j \<le> 50 \<Longrightarrow> \<not> near_int (\<bar>v\<bar> * real j)"
    and "\<And>j. 1 \<le> j \<Longrightarrow> j \<le> 100 \<Longrightarrow> \<not> near_int (\<bar>v\<bar> * \<bar>v\<bar> * real j)"
  shows "formatSmart v = toFixed v 4"
proof -
  have z: "\<not> \<bar>v\<bar> < ABS_TOLERANCE" using assms(1) by simp
  have i: "\<not> near_int \<bar>v\<bar>" using assms(2) [of 1] by simp
  have f: "fractionLoop s \<bar>v\<bar> 2 = None" for s
    using assms(2) by (intro fractionLoop_None) auto
  have r: "radicalLoop s (\<bar>v\<bar> * \<bar>v\<bar>) 1 = None" for s
    using assms(3) by (intro radicalLoop_None) auto
  show ?thesis
    unfolding formatSmart_def Let_def using z i by (simp only: if_False f r option.case)
qed


subsection \<open>Keeping away from the integers on an interval\<close>

lemma gap_ok_not_near:
  assumes "gap_ok a b d q" and "0 < d"
    and "of_int a / of_int d \<le> x" and "x \<le> of_int b / of_int d"
  shows "\<not> near_int (x * real q)"
proof (rule not_near_intI [where n = "(a * int q) div d"])
  define n where "n = (a * int q) div d"
  have dpos: "0 < real_of_int d" using assms(2) by simp
  have 1: "n * d * 100000 + d \<le> a * int q * 100000"
    and 2: "b * int q * 100000 + d \<le> (n + 1) * d * 100000"
    using assms(1) unfolding gap_ok_def Let_def n_def by simp_all
  have "real_of_int (n * d * 100000 + d) \<le> real_of_int (a * int q * 100000)"
    using 1 by (simp only: of_int_le_iff)
  then have "(of_int n + 1 / 100000) * real_of_int d \<le> of_int a * real q"
    by (simp add: algebra_simps)
  then have "of_int n + 1 / 100000 \<le> of_int a * real q / real_of_int d"
    using dpos by (simp add: pos_le_divide_eq)
  also have "\<dots> = (of_int a / of_int d) * real q" by simp
  also have "\<dots> \<le> x * real q" using assms(3) by (intro mult_right_mono) auto
  finally show "real_of_int n + ABS_TOLERANCE \<le> x * real q"
    by (simp add: ABS_TOLERANCE_def)
  have "real_of_int (b * int q * 100000 + d) \<le> real_of_int ((n + 1) * d * 100000)"
    using 2 by (simp only: of_int_le_iff)
  then have "of_int b * real q \<le> (of_int n + 1 - 1 / 100000) * real_of_int d"
    by (simp add: algebra_simps)
  then have "of_int b * real q / real_of_int d \<le> of_int n + 1 - 1 / 100000"
    using dpos by (simp add: pos_divide_le_eq)
  moreover have "x * real q \<le> (of_int b / of_int d) * real q"
    using assms(4) by (intro mult_right_mono) auto
  ultimately show "x * real q \<le> real_of_int n + 1 - ABS_TOLERANCE"
    by (simp add: ABS_TOLERANCE_def)
qed

lemma gaps_not_near:
  assumes "list_all (gap_ok a b d) [m..<n]" and "0 < d"
    and "of_int a / of_int d \<le> x" and "x \<le> of_int b / of_int d"
    and "m \<le> j" and "j < n"
  shows "\<not> near_int (x * real j)"
proof -
  have "gap_ok a b d j" using assms(1,5,6) by (simp add: list_all_iff)
  then show ?thesis using assms(2,3,4) by (rule gap_ok_not_near)
qed





lemma formatSmart_tiny:
  assumes lo: "ABS_TOLERANCE \<le> \<bar>v\<bar>" and hi: "v * v < ABS_TOLERANCE"
  shows "\<not> near_int \<bar>v\<bar>"
    and "fractionLoop s \<bar>v\<bar> 2 = None"
    and "radicalLoop s (\<bar>v\<bar> * \<bar>v\<bar>) 1 = Some (radicalStr s 0 1)"
    and "formatSmart v = (if v < 0 then ''-'' else '''') @ radic @ ''0''"
proof -
  define a where "a = \<bar>v\<bar>"
  have a0: "1 / 100000 \<le> a" using lo by (simp add: a_def ABS_TOLERANCE_def)
  have aa: "a * a < 1 / 100000" using hi by (simp add: a_def ABS_TOLERANCE_def)
  have a1: "a < 1 / 100"
  proof (rule ccontr)
    assume "\<not> a < 1 / 100"
    then have "1 / 100 \<le> a" by simp
    then have "(1 / 100) * (1 / 100) \<le> a * a"
      by (intro mult_mono) auto
    with aa show False by simp
  qed
  have nn: "\<not> near_int (a * real k)" if "1 \<le> k" "k \<le> 50" for k
  proof (rule not_near_intI [where n = 0])
    have "1 \<le> real k" using that by simp
    then have "a * 1 \<le> a * real k" using a0 by (intro mult_left_mono) auto
    then show "of_int 0 + ABS_TOLERANCE \<le> a * real k"
      using a0 unfolding ABS_TOLERANCE_def by linarith
    have "real k \<le> 50" using that by simp
    then have "a * real k \<le> a * 50" using a0 by (intro mult_left_mono) auto
    then show "a * real k \<le> of_int 0 + 1 - ABS_TOLERANCE"
      using a1 unfolding ABS_TOLERANCE_def by linarith
  qed
  show n1: "\<not> near_int \<bar>v\<bar>" using nn [of 1] by (simp add: a_def)
  show fl: "fractionLoop s \<bar>v\<bar> 2 = None" for s
    using nn by (intro fractionLoop_None) (simp add: a_def)
  have "\<bar>a * a * real 1 - of_int 0\<bar> < ABS_TOLERANCE"
    using aa a0 by (simp add: ABS_TOLERANCE_def)
  note ni = near_intI [OF this]
  have "radicalLoop s (a * a) 1 = Some (radicalStr s (nat (round (a * a * real 1))) 1)" for s
    using ni(1) by (intro radicalLoop_Some) auto
  then show rl: "radicalLoop s (\<bar>v\<bar> * \<bar>v\<bar>) 1 = Some (radicalStr s 0 1)" for s
    using ni(2) by (simp add: a_def)
  have rl': "radicalLoop s (v * v) (Suc 0) = Some (radicalStr s 0 1)" for s
    using rl [of s] by simp
  have "\<not> \<bar>v\<bar> < ABS_TOLERANCE" using lo by simp
  then show "formatSmart v = (if v < 0 then ''-'' else '''') @ radic @ ''0''"
    using n1 by (simp add: formatSmart_def Let_def fl rl' radicalStr_0_1)
qed

subsection \<open>The fixtures of the formatter\<close>









subsection \<open>Every rung produces a string\<close>

lemma num_toString_nonempty: "num_toString n \<noteq> []"
  by (subst num_toString.simps) simp

lemma toFixed_nonempty: "toFixed x f \<noteq> []"
  by (simp add: toFixed_def Let_def num_toString_nonempty)

lemma fractionStr_nonempty: "fractionStr s p q \<noteq> []"
  by (simp add: fractionStr_def Let_def num_toString_nonempty)

lemma radicalStr_nonempty: "radicalStr s p q \<noteq> []"
  by (simp add: radicalStr_def Let_def rootStr_def radic_def num_toString_nonempty)

lemma fractionLoop_SomeD:
  "fractionLoop s a q = Some r \<Longrightarrow>
   \<exists>k. q \<le> k \<and> k \<le> 50 \<and> near_int (a * real k) \<and>
       r = fractionStr s (nat (round (a * real k))) k"
proof (induction s a q rule: fractionLoop.induct)
  case (1 sign absVal q)
  from "1.prems" have q50: "q \<le> 50"
    by (subst (asm) fractionLoop.simps) (simp split: if_splits)
  show ?case
  proof (cases "near_int (absVal * real q)")
    case True
    with "1.prems" q50 have "r = fractionStr sign (nat (round (absVal * real q))) q"
      by (subst (asm) fractionLoop.simps) simp
    with True q50 show ?thesis by blast
  next
    case False
    with "1.prems" q50 have "fractionLoop sign absVal (q + 1) = Some r"
      by (subst (asm) fractionLoop.simps) simp
    from "1.IH" [OF q50 refl False this] obtain k where
      "q + 1 \<le> k" "k \<le> 50" "near_int (absVal * real k)"
      "r = fractionStr sign (nat (round (absVal * real k))) k" by blast
    then show ?thesis by (intro exI [of _ k]) simp
  qed
qed

lemma radicalLoop_SomeD:
  "radicalLoop s a q = Some r \<Longrightarrow>
   \<exists>k. q \<le> k \<and> k \<le> 100 \<and> near_int (a * real k) \<and>
       r = radicalStr s (nat (round (a * real k))) k"
proof (induction s a q rule: radicalLoop.induct)
  case (1 sign sq q)
  from "1.prems" have q100: "q \<le> 100"
    by (subst (asm) radicalLoop.simps) (simp split: if_splits)
  show ?case
  proof (cases "near_int (sq * real q)")
    case True
    with "1.prems" q100 have "r = radicalStr sign (nat (round (sq * real q))) q"
      by (subst (asm) radicalLoop.simps) simp
    with True q100 show ?thesis by blast
  next
    case False
    with "1.prems" q100 have "radicalLoop sign sq (q + 1) = Some r"
      by (subst (asm) radicalLoop.simps) simp
    from "1.IH" [OF q100 refl False this] obtain k where
      "q + 1 \<le> k" "k \<le> 100" "near_int (sq * real k)"
      "r = radicalStr sign (nat (round (sq * real k))) k" by blast
    then show ?thesis by (intro exI [of _ k]) simp
  qed
qed

lemma formatSmart_nonempty: "formatSmart v \<noteq> []"
proof -
  have f: "r \<noteq> []" if "fractionLoop s a q = Some r" for s a q r
    using fractionLoop_SomeD [OF that] by (auto simp: fractionStr_nonempty)
  have g: "r \<noteq> []" if "radicalLoop s a q = Some r" for s a q r
    using radicalLoop_SomeD [OF that] by (auto simp: radicalStr_nonempty)
  show ?thesis
    unfolding formatSmart_def Let_def
    by (auto simp: num_toString_nonempty toFixed_nonempty split: option.splits dest: f g)
qed

lemma formatSmart_ladder:
  "formatSmart v = toFixed v 4 \<or> \<bar>v\<bar> < ABS_TOLERANCE \<or> near_int \<bar>v\<bar> \<or>
   (\<exists>q\<in>{2..50}. near_int (\<bar>v\<bar> * real q)) \<or>
   (\<exists>q\<in>{1..100}. near_int (\<bar>v\<bar> * \<bar>v\<bar> * real q))"
proof -
  have f: "\<exists>q\<in>{2..50}. near_int (a * real q)" if "fractionLoop s a 2 = Some r" for s a r
    using fractionLoop_SomeD [OF that] by auto
  have g: "\<exists>q\<in>{1..100}. near_int (a * real q)" if "radicalLoop s a 1 = Some r" for s a r
    using radicalLoop_SomeD [OF that] by auto
  show ?thesis
  proof (cases "\<bar>v\<bar> < ABS_TOLERANCE \<or> near_int \<bar>v\<bar>")
    case True
    then show ?thesis by blast
  next
    case False
    define s where "s = (if v < 0 then ''-'' else '''')"
    show ?thesis
    proof (cases "fractionLoop s \<bar>v\<bar> 2")
      case (Some r)
      from f [OF this] show ?thesis by blast
    next
      case None
      note fl = this
      show ?thesis
      proof (cases "radicalLoop s (\<bar>v\<bar> * \<bar>v\<bar>) 1")
        case (Some r)
        from g [OF this] show ?thesis by blast
      next
        case None
        have "formatSmart v = toFixed v 4"
          unfolding formatSmart_def Let_def using False fl None
          by (simp add: s_def)
        then show ?thesis by blast
      qed
    qed
  qed
qed

lemma fmt_fallback_example: "formatSmart (31416 / 10000) = ''3.1416''"
proof -
  have g: "list_all (gap_ok 31416 31416 10000) [1..<51]" by code_simp
  have g2: "list_all (gap_ok 986965056 986965056 100000000) [1..<101]" by code_simp
  have sq: "\<bar>31416 / 10000 :: real\<bar> * \<bar>31416 / 10000\<bar> = 986965056 / 100000000" by simp
  have "formatSmart (31416 / 10000) = toFixed (31416 / 10000) 4"
  proof (rule ladder_fallback)
    show "\<not> near_int (\<bar>31416 / 10000 :: real\<bar> * real j)" if "1 \<le> j" "j \<le> 50" for j
      using gaps_not_near [OF g, of "31416 / 10000" j] that by simp
    show "\<not> near_int (\<bar>31416 / 10000 :: real\<bar> * \<bar>31416 / 10000\<bar> * real j)"
      if "1 \<le> j" "j \<le> 100" for j
      unfolding sq using gaps_not_near [OF g2, of "986965056 / 100000000" j] that by simp
  qed (simp add: ABS_TOLERANCE_def)
  also have "\<dots> = ''3.1416''"
  proof -
    have r: "round ((31416 / 10000 :: real) * 10 ^ 4) = int 31416" by simp
    have n: "num_toString 31416 = ''31416''" by (simp add: num_toString_eval)
    have p: "pad_zeros (4 + 1) ''31416'' = ''31416''" by (simp add: pad_zeros_def)
    have "toFixed (31416 / 10000) 4 =
        take (length ''31416'' - 4) ''31416'' @ ''.'' @ drop (length ''31416'' - 4) ''31416''"
      by (rule toFixed_digits [OF _ _ r n p]) simp_all
    then show ?thesis by simp
  qed
  finally show ?thesis .
qed

section \<open>Claims about the formatter\<close>

text \<open>
  Claim C9. \<open>formatSmart\<close> is total: the recursion of the \<open>gcd\<close> helper, the loops over
  the denominators 2..50 and 1..100 and the descent of \<open>simplifyRoot\<close> terminate on every
  argument (every argument lies in the domain on which the recursion is well founded),
  the result is never the empty string, and an input that no earlier rung of the ladder
  accepts gets the 4-decimal fallback, as \<open>3.1416\<close> does.
\<close>

theorem formatSmart_total:
  "All gcd_js_dom \<and> All simplifyRoot_loop_dom \<and> All fractionLoop_dom \<and>
   All radicalLoop_dom \<and> All num_toString_dom \<and>
   (\<forall>v. formatSmart v \<noteq> []) \<and>
   (\<forall>v. formatSmart v = toFixed v 4 \<or> \<bar>v\<bar> < ABS_TOLERANCE \<or> near_int \<bar>v\<bar> \<or>
        (\<exists>q\<in>{2..50}. near_int (\<bar>v\<bar> * real q)) \<or>
        (\<exists>q\<in>{1..100}. near_int (\<bar>v\<bar> * \<bar>v\<bar> * real q))) \<and>
   formatSmart (31416 / 10000) = ''3.1416''"
proof (intro conjI)
  show "All gcd_js_dom"
    by (relation "measure (\<lambda>(a, b). b)") auto
  show "All simplifyRoot_loop_dom"
    by (relation "measure (\<lambda>(n, i). i)") auto
  show "All fractionLoop_dom"
    by (relation "measure (\<lambda>(sign, absVal, q). 51 - q)") auto
  show "All radicalLoop_dom"
    by (relation "measure (\<lambda>(sign, sq, q). 101 - q)") auto
  show "All num_toString_dom"
    by (relation "measure id") auto
  show "\<forall>v. formatSmart v \<noteq> []"
    by (rule allI) (rule formatSmart_nonempty)
  show "\<forall>v. formatSmart v = toFixed v 4 \<or> \<bar>v\<bar> < ABS_TOLERANCE \<or> near_int \<bar>v\<bar> \<or>
        (\<exists>q\<in>{2..50}. near_int (\<bar>v\<bar> * real q)) \<or>
        (\<exists>q\<in>{1..100}. near_int (\<bar>v\<bar> * \<bar>v\<bar> * real q))"
    by (rule allI) (rule formatSmart_ladder)
  show "formatSmart (31416 / 10000) = ''3.1416''"
    by (rule fmt_fallback_example)
qed



text \<open>
  Claim C10. For every \<open>v\<close> with \<open>1e-5 \<le> |v|\<close> whose square is below \<open>1e-5\<close>, the integer
  test and the fraction search fail, the radical search matches at \<open>q = 1\<close> with
  \<open>p\<close> rounded to \<open>0\<close>, \<open>simplifyRoot(0)\<close> is \<open>(1, 0)\<close> because its loop does not run, and
  the result is the sign followed by the radical sign and \<open>0\<close>, not a decimal.
\<close>

theorem formatSmart_radical_zero:
  assumes "ABS_TOLERANCE \<le> \<bar>v\<bar>" and "v * v < ABS_TOLERANCE"
  shows "\<not> near_int \<bar>v\<bar> \<and>
         fractionLoop (if v < 0 then ''-'' else '''') \<bar>v\<bar> 2 = None \<and>
         round (\<bar>v\<bar> * \<bar>v\<bar> * real 1) = 0 \<and>
         radicalLoop (if v < 0 then ''-'' else '''') (\<bar>v\<bar> * \<bar>v\<bar>) 1 =
           Some (radicalStr (if v < 0 then ''-'' else '''') 0 1) \<and>
         simplifyRoot 0 = \<lparr>coeff = 1, rad = 0\<rparr> \<and>
         formatSmart v = (if v < 0 then ''-'' else '''') @ radic @ ''0''"
proof -
  have "\<bar>\<bar>v\<bar> * \<bar>v\<bar> * real 1 - of_int 0\<bar> < ABS_TOLERANCE"
    using assms(2) by simp
  then have "round (\<bar>v\<bar> * \<bar>v\<bar> * real 1) = 0" by (rule near_intI(2))
  then show ?thesis
    by (intro conjI formatSmart_tiny [OF assms] simplifyRoot_0)
qed

theorem formatSmart_radical_zero_witness:
  "ABS_TOLERANCE \<le> \<bar>1 / 10000\<bar> \<and> (1 / 10000) * (1 / 10000) < ABS_TOLERANCE \<and>
   formatSmart (1 / 10000) = radic @ ''0'' \<and>
   formatSmart (- 1 / 10000) = ''-'' @ radic @ ''0''"
proof -
  have a: "ABS_TOLERANCE \<le> \<bar>1 / 10000\<bar>" "(1 / 10000) * (1 / 10000) < ABS_TOLERANCE"
    by (simp_all add: ABS_TOLERANCE_def)
  have b: "ABS_TOLERANCE \<le> \<bar>- 1 / 10000\<bar>" "(- 1 / 10000) * (- 1 / 10000) < ABS_TOLERANCE"
    by (simp_all add: ABS_TOLERANCE_def)
  have "formatSmart (1 / 10000) = radic @ ''0''"
    using formatSmart_radical_zero [OF a] by simp
  moreover have "formatSmart (- 1 / 10000) = ''-'' @ radic @ ''0''"
    using formatSmart_radical_zero [OF b] by simp
  ultimately show ?thesis using a by simp
qed

section \<open>Facts and claims about the classifier\<close>

subsection \<open>Products of small matrices\<close>

lemma dot3 [simp]: "dot [u0, u1, u2] [w0, w1, w2] = u0 * w0 + u1 * w1 + u2 * w2"
  by (simp add: dot_def)

lemma mat_vec3 [simp]:
  "mat_vec [r0, r1, r2] w = [dot r0 w, dot r1 w, dot r2 w]"
  by (simp add: mat_vec_def)

lemma upt3: "[0..<3] = [0, Suc 0, Suc (Suc 0)]"
  by (simp add: numeral_3_eq_3 upt_rec)

lemma transposeM3 [simp]:
  "transposeM [[m00, m01, m02], [m10, m11, m12], [m20, m21, m22]] =
   [[m00, m10, m20], [m01, m11, m21], [m02, m12, m22]]"
  by (simp add: transposeM_def column_def upt3)

subsection \<open>The matrix of the quadratic form\<close>

text \<open>
  Claim C1. The matrix \<open>A\<close> has the square coefficients on the diagonal and half of each
  cross coefficient on either side of it, \<open>J\<close> is the vector of the linear coefficients,
  and \<open>x\<^sup>T A x + J\<^sup>T x + c\<close> is the input polynomial; \<open>analyzeSurface\<close> hands this
  matrix to the solver. The first version of the file puts the whole cross coefficients
  off the diagonal, so that its quadratic form has them doubled.
\<close>

theorem matrixA_quadratic_form:
  "matrixA co =
     [[a11 co, a12 co / 2, a13 co / 2],
      [a12 co / 2, a22 co, a23 co / 2],
      [a13 co / 2, a23 co / 2, a33 co]] \<and>
   vectorJ co = [b1 co, b2 co, b3 co] \<and>
   transposeM (matrixA co) = matrixA co \<and>
   (\<forall>x y z. dot [x, y, z] (mat_vec (matrixA co) [x, y, z]) + dot (vectorJ co) [x, y, z] + c co =
      a11 co * x\<^sup>2 + a22 co * y\<^sup>2 + a33 co * z\<^sup>2
      + a12 co * x * y + a23 co * y * z + a13 co * x * z
      + b1 co * x + b2 co * y + b3 co * z + c co) \<and>
   (\<forall>eigs dt. analyzeSurface eigs dt co =
      (case eigs (matrixA co) of
         None \<Rightarrow> Inl ComputationError
       | Some ans \<Rightarrow> if well_shaped ans then Inr (analyze dt ans co) else Inl ShapeError)) \<and>
   matrixA_v1 co =
     [[a11 co, a12 co, a13 co],
      [a12 co, a22 co, a23 co],
      [a13 co, a23 co, a33 co]] \<and>
   (\<forall>x y z. dot [x, y, z] (mat_vec (matrixA_v1 co) [x, y, z]) =
      a11 co * x\<^sup>2 + a22 co * y\<^sup>2 + a33 co * z\<^sup>2
      + 2 * a12 co * x * y + 2 * a23 co * y * z + 2 * a13 co * x * z)"
proof (intro conjI allI)
  fix x y z :: real
  show "dot [x, y, z] (mat_vec (matrixA co) [x, y, z]) + dot (vectorJ co) [x, y, z] + c co =
      a11 co * x\<^sup>2 + a22 co * y\<^sup>2 + a33 co * z\<^sup>2
      + a12 co * x * y + a23 co * y * z + a13 co * x * z
      + b1 co * x + b2 co * y + b3 co * z + c co"
    by (simp add: matrixA_def vectorJ_def power2_eq_square algebra_simps)
  show "dot [x, y, z] (mat_vec (matrixA_v1 co) [x, y, z]) =
      a11 co * x\<^sup>2 + a22 co * y\<^sup>2 + a33 co * z\<^sup>2
      + 2 * a12 co * x * y + 2 * a23 co * y * z + 2 * a13 co * x * z"
    by (simp add: matrixA_v1_def power2_eq_square algebra_simps)
qed (simp_all add: matrixA_def vectorJ_def matrixA_v1_def analyzeSurface_def)

subsection \<open>The loop on three axes\<close>

lemma squareStep_spec:
  "squareStep evs J st i =
     (case spec_axis (evs ! i) (J ! i) (c_prime st) of (s, cp, p) \<Rightarrow>
        \<lparr>S = (S st)[i := s], c_prime = cp,
         linearVars = linearVars st @ (if p then [i] else [])\<rparr>)"
  by (simp add: squareStep_def spec_axis_def Let_def power2_eq_square)

lemma squareStep_v1_spec:
  "squareStep_v1 evs J st i =
     (case spec_axis_v1 (evs ! i) (J ! i) (c_prime st) of (s, cp, p) \<Rightarrow>
        \<lparr>S = (S st)[i := s], c_prime = cp,
         linearVars = linearVars st @ (if p then [i] else [])\<rparr>)"
  by (simp add: squareStep_v1_def spec_axis_v1_def Let_def power2_eq_square)

lemma completeSquare_closed:
  assumes a0: "spec_axis l0 j0 c0 = (s0, c1, p0)"
    and a1: "spec_axis l1 j1 c1 = (s1, c2, p1)"
    and a2: "spec_axis l2 j2 c2 = (s2, c3, p2)"
  shows "completeSquare [l0, l1, l2] [j0, j1, j2] c0 =
        \<lparr>S = [s0, s1, s2], c_prime = c3, linearVars = flagged p0 p1 p2\<rparr>"
proof -
  let ?step = "squareStep [l0, l1, l2] [j0, j1, j2]"
  have 1: "?step \<lparr>S = [0, 0, 0], c_prime = c0, linearVars = []\<rparr> 0 =
      \<lparr>S = [s0, 0, 0], c_prime = c1, linearVars = (if p0 then [0] else [])\<rparr>"
    by (simp add: squareStep_spec a0)
  have 2: "?step \<lparr>S = [s0, 0, 0], c_prime = c1, linearVars = (if p0 then [0] else [])\<rparr> (Suc 0) =
      \<lparr>S = [s0, s1, 0], c_prime = c2,
       linearVars = (if p0 then [0] else []) @ (if p1 then [1] else [])\<rparr>"
    by (simp add: squareStep_spec a1)
  have 3: "?step \<lparr>S = [s0, s1, 0], c_prime = c2,
       linearVars = (if p0 then [0] else []) @ (if p1 then [1] else [])\<rparr> (Suc (Suc 0)) =
      \<lparr>S = [s0, s1, s2], c_prime = c3, linearVars = flagged p0 p1 p2\<rparr>"
    by (simp add: squareStep_spec a2 flagged_def)
  show ?thesis
    unfolding completeSquare_def upt3 foldl_Cons foldl_Nil 1 2 3 ..
qed

lemma completeSquare_v1_closed:
  assumes a0: "spec_axis_v1 l0 j0 c0 = (s0, c1, p0)"
    and a1: "spec_axis_v1 l1 j1 c1 = (s1, c2, p1)"
    and a2: "spec_axis_v1 l2 j2 c2 = (s2, c3, p2)"
  shows "completeSquare_v1 [l0, l1, l2] [j0, j1, j2] c0 =
        \<lparr>S = [s0, s1, s2], c_prime = c3, linearVars = flagged p0 p1 p2\<rparr>"
proof -
  let ?step = "squareStep_v1 [l0, l1, l2] [j0, j1, j2]"
  have 1: "?step \<lparr>S = [0, 0, 0], c_prime = c0, linearVars = []\<rparr> 0 =
      \<lparr>S = [s0, 0, 0], c_prime = c1, linearVars = (if p0 then [0] else [])\<rparr>"
    by (simp add: squareStep_v1_spec a0)
  have 2: "?step \<lparr>S = [s0, 0, 0], c_prime = c1, linearVars = (if p0 then [0] else [])\<rparr> (Suc 0) =
      \<lparr>S = [s0, s1, 0], c_prime = c2,
       linearVars = (if p0 then [0] else []) @ (if p1 then [1] else [])\<rparr>"
    by (simp add: squareStep_v1_spec a1)
  have 3: "?step \<lparr>S = [s0, s1, 0], c_prime = c2,
       linearVars = (if p0 then [0] else []) @ (if p1 then [1] else [])\<rparr> (Suc (Suc 0)) =
      \<lparr>S = [s0, s1, s2], c_prime = c3, linearVars = flagged p0 p1 p2\<rparr>"
    by (simp add: squareStep_v1_spec a2 flagged_def)
  show ?thesis
    unfolding completeSquare_v1_def upt3 foldl_Cons foldl_Nil 1 2 3 ..
qed

lemma spec_axis_flag:
  "spec_axis lam ji cp = (s, cp', p) \<Longrightarrow>
     (p \<longrightarrow> \<bar>lam\<bar> \<le> epsilon \<and> cp' = 0 \<and> s = - cp / ji) \<and>
     (\<bar>lam\<bar> \<le> epsilon \<longrightarrow> \<not> p \<longrightarrow> cp' = cp)"
  by (auto simp: spec_axis_def split: if_splits)

lemma constant_once:
  assumes "l1 \<le> l0" and "l2 \<le> l1"
    and a0: "spec_axis l0 j0 c0 = (s0, c1, p0)"
    and a1: "spec_axis l1 j1 c1 = (s1, c2, p1)"
    and a2: "spec_axis l2 j2 c2 = (s2, c3, p2)"
  shows "(p0 \<and> p1 \<longrightarrow> c1 = 0 \<and> s1 = 0) \<and> (p0 \<and> p2 \<longrightarrow> c2 = 0 \<and> s2 = 0) \<and>
      (p1 \<and> p2 \<longrightarrow> c2 = 0 \<and> s2 = 0)"
proof -
  note f0 = spec_axis_flag [OF a0] and f1 = spec_axis_flag [OF a1] and f2 = spec_axis_flag [OF a2]
  have mid: "\<bar>l1\<bar> \<le> epsilon" if "p0" "p2"
    using that f0 f2 assms(1,2) by (simp add: abs_le_iff)
  have "c1 = 0 \<and> s1 = 0" if "p0" "p1" using that f0 f1 by simp
  moreover have "c2 = 0 \<and> s2 = 0" if "p1" "p2" using that f1 f2 by simp
  moreover have "c2 = 0 \<and> s2 = 0" if "p0" "p2"
  proof -
    have "c1 = 0" using that f0 by simp
    then have "c2 = 0" using f1 mid [OF that] by (cases p1) simp_all
    then show ?thesis using that f2 by simp
  qed
  ultimately show ?thesis by blast
qed

subsection \<open>Three eigenpairs and their sort\<close>

lemma list3_exhaust:
  assumes "length xs = 3"
  obtains x0 x1 x2 where "xs = [x0, x1, x2]"
proof -
  from assms obtain x0 t0 where 0: "xs = x0 # t0" "length t0 = 2"
    by (cases xs) auto
  then obtain x1 t1 where 1: "t0 = x1 # t1" "length t1 = 1"
    by (cases t0) auto
  then obtain x2 where "t1 = [x2]"
    by (cases t1) auto
  with 0 1 that show thesis by simp
qed

lemma well_shapedE:
  assumes "well_shaped ans"
  obtains e0 e1 e2 v00 v01 v02 v10 v11 v12 v20 v21 v22 where
    "eig_values ans = [e0, e1, e2]"
    "eig_vectors ans = [[v00, v01, v02], [v10, v11, v12], [v20, v21, v22]]"
proof -
  from assms have l: "length (eig_values ans) = 3" "length (eig_vectors ans) = 3"
    and r: "list_all (\<lambda>row. length row = 3) (eig_vectors ans)"
    by (simp_all add: well_shaped_def)
  from l(1) obtain e0 e1 e2 where e: "eig_values ans = [e0, e1, e2]"
    by (rule list3_exhaust)
  from l(2) obtain r0 r1 r2 where v: "eig_vectors ans = [r0, r1, r2]"
    by (rule list3_exhaust)
  from r v have "length r0 = 3" "length r1 = 3" "length r2 = 3" by simp_all
  then obtain v00 v01 v02 v10 v11 v12 v20 v21 v22 where
    "r0 = [v00, v01, v02]" "r1 = [v10, v11, v12]" "r2 = [v20, v21, v22]"
    by (metis list3_exhaust)
  with e v that show thesis by simp
qed

lemma mkPairs3:
  assumes "eig_values ans = [e0, e1, e2]"
    and "eig_vectors ans = [[v00, v01, v02], [v10, v11, v12], [v20, v21, v22]]"
  shows "mkPairs ans =
    [\<lparr>val = e0, vec = [v00, v10, v20]\<rparr>, \<lparr>val = e1, vec = [v01, v11, v21]\<rparr>,
     \<lparr>val = e2, vec = [v02, v12, v22]\<rparr>]"
  by (simp add: mkPairs_def assms upt3)

lemma sortPairs3_cases:
  "sortPairs [p, q, r] \<in> {[p, q, r], [p, r, q], [q, p, r], [q, r, p], [r, p, q], [r, q, p]}"
  by (simp add: sortPairs_def)

lemma sortedValues_length: "well_shaped ans \<Longrightarrow> length (sortedValues ans) = 3"
  by (simp add: sortedValues_def sortedPairs_def sortPairs_def mkPairs_def well_shaped_def)

lemma sortedValues_desc:
  "sorted (map uminus (sortedValues ans))"
proof -
  have "map uminus (sortedValues ans) = map (\<lambda>p. - val p) (sort_key (\<lambda>p. - val p) (mkPairs ans))"
    by (simp add: sortedValues_def sortedPairs_def sortPairs_def)
  then show ?thesis by (simp only: sorted_sort_key)
qed

lemma sortedValues3:
  assumes "well_shaped ans"
  obtains l0 l1 l2 where "sortedValues ans = [l0, l1, l2]" "l1 \<le> l0" "l2 \<le> l1"
proof -
  from sortedValues_length [OF assms] obtain l0 l1 l2 where l: "sortedValues ans = [l0, l1, l2]"
    by (rule list3_exhaust)
  from sortedValues_desc [of ans] have "l1 \<le> l0" "l2 \<le> l1" unfolding l by simp_all
  with l that show thesis by blast
qed

lemma sortPairs_stable:
  "filter (\<lambda>p. val p = k) (sortPairs ps) = filter (\<lambda>p. val p = k) ps"
proof -
  have "filter (\<lambda>p. - val p = - k) (sort_key (\<lambda>p. - val p) ps) = filter (\<lambda>p. - val p = - k) ps"
    by (rule sort_key_stable)
  then show ?thesis by (simp add: sortPairs_def)
qed

lemma analyzeSurface_InrD:
  assumes "analyzeSurface eigs dt co = Inr r"
  obtains ans where "eigs (matrixA co) = Some ans" "well_shaped ans" "r = analyze dt ans co"
  using assms unfolding analyzeSurface_def by (auto split: option.splits if_splits)

lemma analyze_simps [simp]:
  "eigenvalues (analyze dt ans co) = sortedValues ans"
  "rotationMatrix (analyze dt ans co) = rotationM dt ans"
  "translationVector (analyze dt ans co) = mat_vec (rotationM dt ans) (S (squared dt ans co))"
  "standardForm (analyze dt ans co) =
     renderStandardForm (sortedValues ans) (rotatedJ dt ans co)
       (linearVars (squared dt ans co)) (c_prime (squared dt ans co))"
  "centerType (analyze dt ans co) = centerOf (sortedValues ans) (linearVars (squared dt ans co))"
  "surfaceType (analyze dt ans co) =
     classify (sortedValues ans) (linearVars (squared dt ans co)) (c_prime (squared dt ans co))"
  by (simp_all add: analyze_def Let_def)

text \<open>
  Claim C7. The eigenvalues that \<open>analyzeSurface\<close> returns are the solver's, sorted in
  descending order, and the sort is stable: the eigenpairs of any one value stand in the
  order the solver gave them.
\<close>

theorem eigenvalues_descending_stable:
  assumes "analyzeSurface eigs dt co = Inr r"
  shows "\<exists>ans. eigs (matrixA co) = Some ans \<and>
           eigenvalues r = map val (sortPairs (mkPairs ans)) \<and>
           map val (mkPairs ans) = eig_values ans \<and>
           length (eigenvalues r) = 3 \<and>
           eigenvalues r ! 1 \<le> eigenvalues r ! 0 \<and>
           eigenvalues r ! 2 \<le> eigenvalues r ! 1 \<and>
           (\<forall>k. filter (\<lambda>p. val p = k) (sortPairs (mkPairs ans)) =
                filter (\<lambda>p. val p = k) (mkPairs ans))"
proof -
  from assms obtain ans where a: "eigs (matrixA co) = Some ans" "well_shaped ans"
    "r = analyze dt ans co" by (rule analyzeSurface_InrD)
  from a(2) obtain l0 l1 l2 where l: "sortedValues ans = [l0, l1, l2]" "l1 \<le> l0" "l2 \<le> l1"
    by (rule sortedValues3)
  have m: "map val (mkPairs ans) = eig_values ans"
    using a(2) by (elim well_shapedE) (simp add: mkPairs3)
  show ?thesis
  proof (intro exI [of _ ans] conjI allI)
    show "eigenvalues r = map val (sortPairs (mkPairs ans))"
      by (simp add: a(3) sortedValues_def sortedPairs_def)
  qed (use a l m in \<open>simp_all add: sortPairs_stable\<close>)
qed

lemma swapSolver_analyze:
  "analyzeSurface swapSolver dt co =
     Inr (analyze dt \<lparr>eig_values = [- 1, 1, 1],
       eig_vectors = [[0, 1, 0], [0, 0, 1], [1, 0, 0]]\<rparr> co)"
  by (simp add: analyzeSurface_def swapSolver_def well_shaped_def)

lemma swap_sortedPairs:
  "sortedPairs \<lparr>eig_values = [- 1, 1, 1], eig_vectors = [[0, 1, 0], [0, 0, 1], [1, 0, 0]]\<rparr> =
     [\<lparr>val = 1, vec = [1, 0, 0]\<rparr>, \<lparr>val = 1, vec = [0, 1, 0]\<rparr>, \<lparr>val = - 1, vec = [0, 0, 1]\<rparr>]"
  by (simp add: sortedPairs_def sortPairs_def mkPairs_def upt3)

theorem eigenvalues_descending_stable_witness:
  "\<exists>r. analyzeSurface swapSolver det3 coneCoeffs = Inr r \<and> eigenvalues r = [1, 1, - 1] \<and>
       eigenvalues r ! 1 \<le> eigenvalues r ! 0 \<and> eigenvalues r ! 2 \<le> eigenvalues r ! 1"
proof -
  let ?r = "analyze det3 \<lparr>eig_values = [- 1, 1, 1],
       eig_vectors = [[0, 1, 0], [0, 0, 1], [1, 0, 0]]\<rparr> coneCoeffs"
  have a: "analyzeSurface swapSolver det3 coneCoeffs = Inr ?r" by (rule swapSolver_analyze)
  have e: "eigenvalues ?r = [1, 1, - 1]"
    by (simp add: sortedValues_def swap_sortedPairs)
  from eigenvalues_descending_stable [OF a]
  have "eigenvalues ?r ! 1 \<le> eigenvalues ?r ! 0 \<and> eigenvalues ?r ! 2 \<le> eigenvalues ?r ! 1"
    by blast
  with a e show ?thesis by blast
qed

subsection \<open>Determinant and orientation\<close>

lemma mat_mul3 [simp]:
  "mat_mul [r0, r1, r2] [[n00, n01, n02], [n10, n11, n12], [n20, n21, n22]] =
   [[dot r0 [n00, n10, n20], dot r0 [n01, n11, n21], dot r0 [n02, n12, n22]],
    [dot r1 [n00, n10, n20], dot r1 [n01, n11, n21], dot r1 [n02, n12, n22]],
    [dot r2 [n00, n10, n20], dot r2 [n01, n11, n21], dot r2 [n02, n12, n22]]]"
  by (simp add: mat_mul_def column_def upt3)

lemma flipThird3 [simp]:
  "flipThird [[m00, m01, m02], [m10, m11, m12], [m20, m21, m22]] =
   [[m00, m01, - m02], [m10, m11, - m12], [m20, m21, - m22]]"
  by (simp add: flipThird_def)

lemma det3_flipThird:
  "det3 (flipThird [[m00, m01, m02], [m10, m11, m12], [m20, m21, m22]]) =
   - det3 [[m00, m01, m02], [m10, m11, m12], [m20, m21, m22]]"
  by (simp add: algebra_simps)

lemma det3_gram:
  "(det3 [[m00, m01, m02], [m10, m11, m12], [m20, m21, m22]])\<^sup>2 =
   det3 (mat_mul (transposeM [[m00, m01, m02], [m10, m11, m12], [m20, m21, m22]])
     [[m00, m01, m02], [m10, m11, m12], [m20, m21, m22]])"
  by (simp add: power2_eq_square) algebra

lemma orthonormal_det:
  assumes "mat_mul (transposeM [[m00, m01, m02], [m10, m11, m12], [m20, m21, m22]])
     [[m00, m01, m02], [m10, m11, m12], [m20, m21, m22]] = I3"
  shows "det3 [[m00, m01, m02], [m10, m11, m12], [m20, m21, m22]] = 1 \<or>
         det3 [[m00, m01, m02], [m10, m11, m12], [m20, m21, m22]] = - 1"
proof -
  let ?m = "[[m00, m01, m02], [m10, m11, m12], [m20, m21, m22]]"
  have "(det3 ?m)\<^sup>2 = det3 I3"
    unfolding det3_gram assms ..
  also have "\<dots> = 1" by (simp add: I3_def)
  finally show ?thesis by (simp add: power2_eq_1_iff)
qed

lemma orthonormal_flipThird:
  assumes "mat_mul (transposeM [[m00, m01, m02], [m10, m11, m12], [m20, m21, m22]])
     [[m00, m01, m02], [m10, m11, m12], [m20, m21, m22]] = I3"
  shows "mat_mul (transposeM (flipThird [[m00, m01, m02], [m10, m11, m12], [m20, m21, m22]]))
     (flipThird [[m00, m01, m02], [m10, m11, m12], [m20, m21, m22]]) = I3"
  using assms by (simp add: I3_def)

lemma rawM_shape:
  assumes "well_shaped ans"
  obtains m00 m01 m02 m10 m11 m12 m20 m21 m22 where
    "rawM ans = [[m00, m01, m02], [m10, m11, m12], [m20, m21, m22]]"
  by (simp add: rawM_def assembleM_def)

lemma rawM_orthonormal:
  assumes w: "well_shaped ans"
    and o: "mat_mul (transposeM (eig_vectors ans)) (eig_vectors ans) = I3"
  shows "mat_mul (transposeM (rawM ans)) (rawM ans) = I3"
proof -
  from w obtain e0 e1 e2 v00 v01 v02 v10 v11 v12 v20 v21 v22 where
    e: "eig_values ans = [e0, e1, e2]"
    and v: "eig_vectors ans = [[v00, v01, v02], [v10, v11, v12], [v20, v21, v22]]"
    by (rule well_shapedE)
  let ?p = "\<lparr>val = e0, vec = [v00, v10, v20]\<rparr>"
  let ?q = "\<lparr>val = e1, vec = [v01, v11, v21]\<rparr>"
  let ?r = "\<lparr>val = e2, vec = [v02, v12, v22]\<rparr>"
  have o': "v00 * v00 + v10 * v10 + v20 * v20 = 1" "v01 * v01 + v11 * v11 + v21 * v21 = 1"
    "v02 * v02 + v12 * v12 + v22 * v22 = 1" "v00 * v01 + v10 * v11 + v20 * v21 = 0"
    "v00 * v02 + v10 * v12 + v20 * v22 = 0" "v01 * v02 + v11 * v12 + v21 * v22 = 0"
    using o unfolding v by (simp_all add: I3_def)
  have o'': "v01 * v00 + v11 * v10 + v21 * v20 = 0"
    "v02 * v00 + v12 * v10 + v22 * v20 = 0" "v02 * v01 + v12 * v11 + v22 * v21 = 0"
    using o'(4-6) by (simp_all add: mult.commute)
  have s: "sortedPairs ans = sortPairs [?p, ?q, ?r]"
    by (simp add: sortedPairs_def mkPairs3 [OF e v])
  from sortPairs3_cases [of ?p ?q ?r]
  consider "sortedPairs ans = [?p, ?q, ?r]" | "sortedPairs ans = [?p, ?r, ?q]"
    | "sortedPairs ans = [?q, ?p, ?r]" | "sortedPairs ans = [?q, ?r, ?p]"
    | "sortedPairs ans = [?r, ?p, ?q]" | "sortedPairs ans = [?r, ?q, ?p]"
    unfolding s by blast
  then show ?thesis
    by cases (simp_all add: rawM_def assembleM_def I3_def o' o'')
qed

text \<open>
  What the orientation step is written to achieve. When \<open>math.det\<close> returns a number of the
  determinant's sign on the assembled matrix, and the solver's columns are orthonormal,
  the returned matrix has determinant 1 and orthonormal columns.
\<close>

lemma orient_proper:
  assumes "well_shaped ans"
    and "mat_mul (transposeM (eig_vectors ans)) (eig_vectors ans) = I3"
    and "(dt (rawM ans) < 0) = (det3 (rawM ans) < 0)"
  shows "det3 (rotationM dt ans) = 1 \<and>
         mat_mul (transposeM (rotationM dt ans)) (rotationM dt ans) = I3"
proof -
  from assms(1) obtain m00 m01 m02 m10 m11 m12 m20 m21 m22 where
    m: "rawM ans = [[m00, m01, m02], [m10, m11, m12], [m20, m21, m22]]"
    by (rule rawM_shape)
  note o = rawM_orthonormal [OF assms(1,2), unfolded m]
  note d = orthonormal_det [OF o]
  show ?thesis
  proof (cases "det3 (rawM ans) < 0")
    case True
    then have "det3 [[m00, m01, m02], [m10, m11, m12], [m20, m21, m22]] = - 1"
      using d unfolding m by linarith
    then have 1: "det3 (flipThird (rawM ans)) = 1"
      unfolding m det3_flipThird by simp
    have 2: "mat_mul (transposeM (flipThird (rawM ans))) (flipThird (rawM ans)) = I3"
      unfolding m by (rule orthonormal_flipThird [OF o])
    have "rotationM dt ans = flipThird (rawM ans)"
      using True assms(3) by (simp add: rotationM_def orient_def)
    with 1 2 show ?thesis by simp
  next
    case False
    then have 1: "det3 (rawM ans) = 1"
      using d unfolding m by linarith
    have 2: "mat_mul (transposeM (rawM ans)) (rawM ans) = I3"
      unfolding m by (rule o)
    have "rotationM dt ans = rawM ans"
      using False assms(3) by (simp add: rotationM_def orient_def)
    with 1 2 show ?thesis by simp
  qed
qed

text \<open>The library's answer on the quadric with three cross terms, evaluated.\<close>

lemma cross_well_shaped: "well_shaped crossAnswer"
  by (simp add: well_shaped_def crossAnswer_def)

lemma cross_sortedPairs:
  "sortedPairs crossAnswer =
     [\<lparr>val = 9007199254740989 / 2251799813685248,
        vec = [- 126095437011 / 2475880078570760549798248448,
               - 1592262918131443 / 2251799813685248,
               6369051672525773 / 9007199254740992]\<rparr>,
      \<lparr>val = 7593702455431407 / 2251799813685248,
        vec = [- 3450588639970627 / 4503599627370496,
               2046441746221637 / 4503599627370496,
               4092883492443273 / 9007199254740992]\<rparr>,
      \<lparr>val = - 5341902641746159 / 2251799813685248,
        vec = [1447052836056559 / 2251799813685248,
               2439934626408497 / 4503599627370496,
               4879869252816993 / 9007199254740992]\<rparr>]"
  by (simp add: sortedPairs_def sortPairs_def mkPairs_def upt3 crossAnswer_def column_def)

lemma cross_rawM:
  "rawM crossAnswer =
     [[- 126095437011 / 2475880078570760549798248448,
       - 3450588639970627 / 4503599627370496,
       1447052836056559 / 2251799813685248],
      [- 1592262918131443 / 2251799813685248,
       2046441746221637 / 4503599627370496,
       2439934626408497 / 4503599627370496],
      [6369051672525773 / 9007199254740992,
       4092883492443273 / 9007199254740992,
       4879869252816993 / 9007199254740992]]"
  by (simp add: rawM_def cross_sortedPairs assembleM_def)

lemma cross_det3: "det3 (rawM crossAnswer) < - 999999 / 1000000"
  unfolding cross_rawM by simp

lemma cross_det3_near: "\<bar>det3 (rawM crossAnswer) + 1\<bar> < 1 / 10 ^ 15"
  unfolding cross_rawM by simp

lemma cross_orthonormal: "orthonormal_within (1 / 10 ^ 15) (eig_vectors crossAnswer)"
  by (simp add: orthonormal_within_def close_to_def crossAnswer_def I3_def)

lemma cross_eigenpairs:
  "eigenpairs_within (1 / 10 ^ 14) crossAnswer (matrixA crossCoeffs)"
  by (simp add: eigenpairs_within_def close_to_def crossAnswer_def matrixA_def crossCoeffs_def
      upt3 column_def mat_vec_def dot_def)

text \<open>
  Claim C6. The claim does not hold of the program: the orientation step tests the number
  the library's \<open>math.det\<close> returns, and that number need not have the determinant's sign.
  On the quadric \<open>x^2 + 2y^2 + 2z^2 - 4xy - 4yz - 4xz = 0\<close> the solver's answer keeps its
  contract to within \<open>1e-14\<close> (orthonormal columns, eigenpairs of \<open>A\<close>), the matrix assembled
  from the eigenvectors sorted by descending eigenvalue has a determinant within \<open>1e-15\<close>
  of \<open>- 1\<close>, \<open>math.det\<close> returns \<open>0.5449798847995208\<close> on it, and \<open>analyzeSurface\<close>
  returns the assembled matrix with its third column as it was: a rotation with a
  reflection, whose determinant is not within \<open>1e-6\<close> of 1.
\<close>

theorem rotationMatrix_improper:
  "analyzeSurface crossSolver crossDet crossCoeffs =
     Inr (analyze crossDet crossAnswer crossCoeffs) \<and>
   orthonormal_within (1 / 10 ^ 15) (eig_vectors crossAnswer) \<and>
   eigenpairs_within (1 / 10 ^ 14) crossAnswer (matrixA crossCoeffs) \<and>
   det3 (rawM crossAnswer) < - 999999 / 1000000 \<and>
   \<bar>det3 (rawM crossAnswer) + 1\<bar> < 1 / 10 ^ 15 \<and>
   crossDet (rawM crossAnswer) = 4908742412215075 / 9007199254740992 \<and>
   rotationMatrix (analyze crossDet crossAnswer crossCoeffs) = rawM crossAnswer \<and>
   column 2 (rotationMatrix (analyze crossDet crossAnswer crossCoeffs)) =
     column 2 (rawM crossAnswer) \<and>
   det3 (rotationMatrix (analyze crossDet crossAnswer crossCoeffs)) < - 999999 / 1000000"
proof -
  have a: "analyzeSurface crossSolver crossDet crossCoeffs =
      Inr (analyze crossDet crossAnswer crossCoeffs)"
    by (simp add: analyzeSurface_def crossSolver_def cross_well_shaped)
  have d: "crossDet (rawM crossAnswer) = 4908742412215075 / 9007199254740992"
    by (simp add: crossDet_def)
  have "\<not> crossDet (rawM crossAnswer) < 0"
    unfolding d by simp
  then have r: "rotationMatrix (analyze crossDet crossAnswer crossCoeffs) = rawM crossAnswer"
    by (simp add: rotationM_def orient_def)
  show ?thesis
    unfolding r
    by (intro conjI a cross_orthonormal cross_eigenpairs cross_det3 cross_det3_near d refl)
qed


lemma mirrorSolver_analyze:
  "analyzeSurface mirrorSolver dt co =
     Inr (analyze dt \<lparr>eig_values = [1, 1, - 1],
       eig_vectors = [[0, 1, 0], [1, 0, 0], [0, 0, 1]]\<rparr> co)"
  by (simp add: analyzeSurface_def mirrorSolver_def well_shaped_def)

lemma mirror_sortedPairs:
  "sortedPairs \<lparr>eig_values = [1, 1, - 1], eig_vectors = [[0, 1, 0], [1, 0, 0], [0, 0, 1]]\<rparr> =
     [\<lparr>val = 1, vec = [0, 1, 0]\<rparr>, \<lparr>val = 1, vec = [1, 0, 0]\<rparr>, \<lparr>val = - 1, vec = [0, 0, 1]\<rparr>]"
  by (simp add: sortedPairs_def sortPairs_def mkPairs_def upt3)

lemma mirror_rawM:
  "rawM \<lparr>eig_values = [1, 1, - 1], eig_vectors = [[0, 1, 0], [1, 0, 0], [0, 0, 1]]\<rparr> =
     [[0, 1, 0], [1, 0, 0], [0, 0, 1]]"
  by (simp add: rawM_def mirror_sortedPairs assembleM_def)

subsection \<open>What the contract of the solver gives\<close>

lemma eigen_contractD:
  assumes "eigen_contract eigs m"
  obtains ans where "eigs m = Some ans" "well_shaped ans"
    "\<forall>e\<in>set (eig_values ans).
       \<exists>x y z. x * x + y * y + z * z = 1 \<and> mat_vec m [x, y, z] = [e * x, e * y, e * z]"
proof -
  from assms obtain ans where a: "eigs m = Some ans" "well_shaped ans"
    and o: "mat_mul (transposeM (eig_vectors ans)) (eig_vectors ans) = I3"
    and q: "list_all (\<lambda>k. mat_vec m (column k (eig_vectors ans)) =
                         map ((*) (eig_values ans ! k)) (column k (eig_vectors ans))) [0..<3]"
    unfolding eigen_contract_def by (auto split: option.splits)
  from a(2) obtain e0 e1 e2 v00 v01 v02 v10 v11 v12 v20 v21 v22 where
    e: "eig_values ans = [e0, e1, e2]"
    and v: "eig_vectors ans = [[v00, v01, v02], [v10, v11, v12], [v20, v21, v22]]"
    by (rule well_shapedE)
  have u: "v00 * v00 + v10 * v10 + v20 * v20 = 1" "v01 * v01 + v11 * v11 + v21 * v21 = 1"
    "v02 * v02 + v12 * v12 + v22 * v22 = 1"
    using o unfolding v by (simp_all add: I3_def)
  have k: "mat_vec m [v00, v10, v20] = [e0 * v00, e0 * v10, e0 * v20]"
    "mat_vec m [v01, v11, v21] = [e1 * v01, e1 * v11, e1 * v21]"
    "mat_vec m [v02, v12, v22] = [e2 * v02, e2 * v12, e2 * v22]"
    using q unfolding e v by (simp_all add: upt3 column_def)
  have "\<forall>ev\<in>set (eig_values ans).
      \<exists>x y z. x * x + y * y + z * z = 1 \<and> mat_vec m [x, y, z] = [ev * x, ev * y, ev * z]"
    unfolding e using u k by auto
  with a that show thesis by blast
qed

lemma set_sortedValues:
  assumes "well_shaped ans"
  shows "set (sortedValues ans) = set (eig_values ans)"
proof -
  have "map val (mkPairs ans) = eig_values ans"
    using assms by (elim well_shapedE) (simp add: mkPairs3)
  then have "set (eig_values ans) = val ` set (mkPairs ans)"
    by (metis set_map)
  then show ?thesis
    by (simp add: sortedValues_def sortedPairs_def sortPairs_def)
qed

lemma sortedValues_const:
  assumes "well_shaped ans" and "\<And>e. e \<in> set (eig_values ans) \<Longrightarrow> e = k"
  shows "sortedValues ans = [k, k, k]"
proof -
  from assms(1) obtain l0 l1 l2 where l: "sortedValues ans = [l0, l1, l2]"
    by (rule sortedValues3)
  have "set (sortedValues ans) = set (eig_values ans)"
    by (rule set_sortedValues [OF assms(1)])
  then have "l0 = k" "l1 = k" "l2 = k"
    using assms(2) unfolding l by auto
  with l show ?thesis by simp
qed

lemma rotationM_shape:
  assumes "well_shaped ans"
  obtains m00 m01 m02 m10 m11 m12 m20 m21 m22 where
    "rotationM dt ans = [[m00, m01, m02], [m10, m11, m12], [m20, m21, m22]]"
proof -
  from assms obtain m00 m01 m02 m10 m11 m12 m20 m21 m22 where
    m: "rawM ans = [[m00, m01, m02], [m10, m11, m12], [m20, m21, m22]]"
    by (rule rawM_shape)
  show thesis
  proof (cases "dt (rawM ans) < 0")
    case True
    then have "rotationM dt ans = [[m00, m01, - m02], [m10, m11, - m12], [m20, m21, - m22]]"
      by (simp add: rotationM_def orient_def m)
    then show thesis by (rule that)
  next
    case False
    then have "rotationM dt ans = [[m00, m01, m02], [m10, m11, m12], [m20, m21, m22]]"
      by (simp add: rotationM_def orient_def m)
    then show thesis by (rule that)
  qed
qed

lemma rotatedJ_zero:
  assumes "well_shaped ans" and "vectorJ co = [0, 0, 0]"
  shows "rotatedJ dt ans co = [0, 0, 0]"
proof -
  from assms(1) obtain m00 m01 m02 m10 m11 m12 m20 m21 m22 where
    "rotationM dt ans = [[m00, m01, m02], [m10, m11, m12], [m20, m21, m22]]"
    by (rule rotationM_shape)
  then show ?thesis by (simp add: rotatedJ_def assms(2))
qed

lemma spec_axis_zero: "spec_axis lam 0 cp = (0, cp, False)"
  by (simp add: spec_axis_def epsilon_def)

lemma squared_zeroJ:
  assumes "well_shaped ans" and "vectorJ co = [0, 0, 0]"
  shows "squared dt ans co = \<lparr>S = [0, 0, 0], c_prime = c co, linearVars = []\<rparr>"
proof -
  from assms(1) obtain l0 l1 l2 where l: "sortedValues ans = [l0, l1, l2]"
    by (rule sortedValues3)
  show ?thesis
    unfolding squared_def l rotatedJ_zero [OF assms]
    by (simp add: completeSquare_closed [OF spec_axis_zero spec_axis_zero spec_axis_zero]
        flagged_def)
qed

subsection \<open>The examples of the claims\<close>

lemma rank_le: "rank evs \<le> length evs"
  by (simp add: rank_def)

lemma rank3_all:
  assumes "rank [l0, l1, l2] = 3"
  shows "\<bar>l0\<bar> > epsilon" "\<bar>l1\<bar> > epsilon" "\<bar>l2\<bar> > epsilon"
  using assms by (simp_all add: rank_def split: if_splits)

lemma contract_cone_values:
  assumes "x * x + y * y + z * z = 1"
    and "mat_vec (matrixA coneCoeffs) [x, y, z] = [e * x, e * y, e * z]"
  shows "e = 1 \<or> e = - 1"
proof -
  from assms(2) have 1: "x = e * x" "y = e * y" "- z = e * z"
    by (simp_all add: matrixA_def coneCoeffs_def)
  show ?thesis
  proof (cases "x = 0 \<and> y = 0")
    case True
    with assms(1) have "z \<noteq> 0" by auto
    from 1(3) have "(e + 1) * z = 0" by (simp add: algebra_simps)
    with \<open>z \<noteq> 0\<close> have "e = - 1" by (simp add: add_eq_0_iff)
    then show ?thesis by simp
  next
    case False
    with 1(1,2) have "e = 1" by auto
    then show ?thesis by simp
  qed
qed

lemma contract_sphere_values:
  assumes "x * x + y * y + z * z = 1"
    and "mat_vec (matrixA sphereCoeffs) [x, y, z] = [e * x, e * y, e * z]"
  shows "e = 1"
proof -
  from assms(2) have 1: "x = e * x" "y = e * y" "z = e * z"
    by (simp_all add: matrixA_def sphereCoeffs_def)
  from assms(1) have "x \<noteq> 0 \<or> y \<noteq> 0 \<or> z \<noteq> 0" by auto
  with 1 show ?thesis by auto
qed

lemma contract_zero_values:
  assumes "x * x + y * y + z * z = 1"
    and "mat_vec (matrixA zeroCoeffs) [x, y, z] = [e * x, e * y, e * z]"
  shows "e = 0"
proof -
  from assms(2) have 1: "0 = e * x" "0 = e * y" "0 = e * z"
    by (simp_all add: matrixA_def zeroCoeffs_def)
  from assms(1) have "x \<noteq> 0 \<or> y \<noteq> 0 \<or> z \<noteq> 0" by auto
  with 1 show ?thesis by auto
qed

lemma cone_example:
  assumes "eigen_contract eigs (matrixA coneCoeffs)"
  shows "\<exists>r. analyzeSurface eigs dt coneCoeffs = Inr r \<and>
           surfaceType r = ''Cone (Real or Imaginary)'' \<and> centerType r = Point"
proof -
  from assms obtain ans where a: "eigs (matrixA coneCoeffs) = Some ans" "well_shaped ans"
    and e: "\<forall>e\<in>set (eig_values ans).
       \<exists>x y z. x * x + y * y + z * z = 1 \<and>
         mat_vec (matrixA coneCoeffs) [x, y, z] = [e * x, e * y, e * z]"
    by (rule eigen_contractD)
  have v: "e = 1 \<or> e = - 1" if "e \<in> set (eig_values ans)" for e
    using e that contract_cone_values by blast
  from a(2) obtain l0 l1 l2 where l: "sortedValues ans = [l0, l1, l2]"
    by (rule sortedValues3)
  have "set (sortedValues ans) = set (eig_values ans)"
    by (rule set_sortedValues [OF a(2)])
  then have "l0 \<in> set (eig_values ans)" "l1 \<in> set (eig_values ans)"
    "l2 \<in> set (eig_values ans)"
    unfolding l by auto
  then have "\<bar>l0\<bar> = 1" "\<bar>l1\<bar> = 1" "\<bar>l2\<bar> = 1"
    using v [of l0] v [of l1] v [of l2] by auto
  then have r: "rank (sortedValues ans) = 3"
    unfolding l by (simp add: rank_def epsilon_def)
  have s: "squared dt ans coneCoeffs = \<lparr>S = [0, 0, 0], c_prime = 0, linearVars = []\<rparr>"
    using squared_zeroJ [OF a(2), of coneCoeffs] by (simp add: vectorJ_def coneCoeffs_def)
  have "analyzeSurface eigs dt coneCoeffs = Inr (analyze dt ans coneCoeffs)"
    by (simp add: analyzeSurface_def a)
  moreover have "surfaceType (analyze dt ans coneCoeffs) = ''Cone (Real or Imaginary)''"
    by (simp add: s classify_def r epsilon_def)
  moreover have "centerType (analyze dt ans coneCoeffs) = Point"
    by (simp add: s centerOf_def r)
  ultimately show ?thesis by blast
qed

lemma zero_example:
  assumes "eigen_contract eigs (matrixA zeroCoeffs)"
  shows "\<exists>r. analyzeSurface eigs dt zeroCoeffs = Inr r \<and> rank (eigenvalues r) = 0 \<and>
           centerType r = Line \<and> surfaceType r = ''General Quadric''"
proof -
  from assms obtain ans where a: "eigs (matrixA zeroCoeffs) = Some ans" "well_shaped ans"
    and e: "\<forall>e\<in>set (eig_values ans).
       \<exists>x y z. x * x + y * y + z * z = 1 \<and>
         mat_vec (matrixA zeroCoeffs) [x, y, z] = [e * x, e * y, e * z]"
    by (rule eigen_contractD)
  have v: "e = 0" if "e \<in> set (eig_values ans)" for e
    using e that contract_zero_values by blast
  have l: "sortedValues ans = [0, 0, 0]"
    using a(2) v by (rule sortedValues_const)
  have r: "rank (sortedValues ans) = 0"
    unfolding l by (simp add: rank_def epsilon_def)
  have s: "squared dt ans zeroCoeffs = \<lparr>S = [0, 0, 0], c_prime = 0, linearVars = []\<rparr>"
    using squared_zeroJ [OF a(2), of zeroCoeffs] by (simp add: vectorJ_def zeroCoeffs_def)
  have "analyzeSurface eigs dt zeroCoeffs = Inr (analyze dt ans zeroCoeffs)"
    by (simp add: analyzeSurface_def a)
  moreover have "surfaceType (analyze dt ans zeroCoeffs) = ''General Quadric''"
    by (simp add: s classify_def r)
  moreover have "centerType (analyze dt ans zeroCoeffs) = Line"
    by (simp add: s centerOf_def r)
  moreover have "rank (eigenvalues (analyze dt ans zeroCoeffs)) = 0"
    by (simp add: r)
  ultimately show ?thesis by blast
qed

lemma mirror_contract: "eigen_contract mirrorSolver (matrixA coneCoeffs)"
  by (simp add: eigen_contract_def mirrorSolver_def well_shaped_def I3_def upt3 column_def
      matrixA_def coneCoeffs_def)

lemma identity_contract_sphere: "eigen_contract (identitySolver 1) (matrixA sphereCoeffs)"
  by (simp add: eigen_contract_def identitySolver_def well_shaped_def I3_def upt3 column_def
      matrixA_def sphereCoeffs_def)

lemma identity_contract_zero: "eigen_contract (identitySolver 0) (matrixA zeroCoeffs)"
  by (simp add: eigen_contract_def identitySolver_def well_shaped_def I3_def upt3 column_def
      matrixA_def zeroCoeffs_def)

text \<open>
  Claim C3. With no parabolic axis and rank 3, the surface type is the cone when
  \<open>|c'| < 1e-5\<close> and is otherwise decided by the number \<open>n\<close> of eigenvalues \<open>l\<close> with
  \<open>l * (- c') > 0\<close>: 3, 2, 1 and 0 give the ellipsoid, the two hyperboloids and the
  imaginary ellipsoid. For the input \<open>x^2 + y^2 - z^2 = 0\<close> and any solver that keeps its
  contract the result is the cone with centre type \<open>Point\<close>.
\<close>

theorem rank3_surfaceType:
  "(\<forall>eigs dt co r ans.
      analyzeSurface eigs dt co = Inr r \<longrightarrow> eigs (matrixA co) = Some ans \<longrightarrow>
      linearVars (squared dt ans co) = [] \<longrightarrow> rank (eigenvalues r) = 3 \<longrightarrow>
      (let cp = c_prime (squared dt ans co);
           n = length (filter (\<lambda>l. l * (- cp) > 0) (eigenvalues r))
       in list_all (\<lambda>l. \<bar>l\<bar> > epsilon) (eigenvalues r) \<and> length (eigenvalues r) = 3 \<and>
          n \<le> 3 \<and>
          surfaceType r =
            (if \<bar>cp\<bar> < epsilon then ''Cone (Real or Imaginary)''
             else if n = 3 then ''Ellipsoid''
             else if n = 2 then ''Hyperboloid of One Sheet''
             else if n = 1 then ''Hyperboloid of Two Sheets''
             else ''Imaginary Ellipsoid''))) \<and>
   (\<forall>eigs dt. eigen_contract eigs (matrixA coneCoeffs) \<longrightarrow>
      (\<exists>r. analyzeSurface eigs dt coneCoeffs = Inr r \<and>
           surfaceType r = ''Cone (Real or Imaginary)'' \<and> centerType r = Point))"
proof (intro conjI allI impI)
  fix eigs dt co r ans
  assume a: "analyzeSurface eigs dt co = Inr r" "eigs (matrixA co) = Some ans"
    and lin: "linearVars (squared dt ans co) = []" and rk: "rank (eigenvalues r) = 3"
  from a have w: "well_shaped ans" and r: "r = analyze dt ans co"
    by (auto elim!: analyzeSurface_InrD)
  from w obtain l0 l1 l2 where l: "sortedValues ans = [l0, l1, l2]"
    by (rule sortedValues3)
  from rk have rk': "rank [l0, l1, l2] = 3" by (simp add: r l)
  note big = rank3_all [OF rk']
  show "let cp = c_prime (squared dt ans co);
           n = length (filter (\<lambda>l. l * (- cp) > 0) (eigenvalues r))
       in list_all (\<lambda>l. \<bar>l\<bar> > epsilon) (eigenvalues r) \<and> length (eigenvalues r) = 3 \<and>
          n \<le> 3 \<and>
          surfaceType r =
            (if \<bar>cp\<bar> < epsilon then ''Cone (Real or Imaginary)''
             else if n = 3 then ''Ellipsoid''
             else if n = 2 then ''Hyperboloid of One Sheet''
             else if n = 1 then ''Hyperboloid of Two Sheets''
             else ''Imaginary Ellipsoid'')"
    unfolding Let_def
  proof (intro conjI)
    show "length (filter (\<lambda>l. l * (- c_prime (squared dt ans co)) > 0) (eigenvalues r)) \<le> 3"
      using length_filter_le [of _ "[l0, l1, l2]"] by (simp add: r l del: length_filter_le)
    show "surfaceType r =
       (if \<bar>c_prime (squared dt ans co)\<bar> < epsilon then ''Cone (Real or Imaginary)''
        else if length (filter (\<lambda>l. l * (- c_prime (squared dt ans co)) > 0) (eigenvalues r)) = 3
          then ''Ellipsoid''
        else if length (filter (\<lambda>l. l * (- c_prime (squared dt ans co)) > 0) (eigenvalues r)) = 2
          then ''Hyperboloid of One Sheet''
        else if length (filter (\<lambda>l. l * (- c_prime (squared dt ans co)) > 0) (eigenvalues r)) = 1
          then ''Hyperboloid of Two Sheets''
        else ''Imaginary Ellipsoid'')"
      using rk by (simp add: r classify_def lin Let_def)
  qed (use big in \<open>simp_all add: r l\<close>)
next
  fix eigs :: eigensolver and dt :: determinant
  assume "eigen_contract eigs (matrixA coneCoeffs)"
  then show "\<exists>r. analyzeSurface eigs dt coneCoeffs = Inr r \<and>
           surfaceType r = ''Cone (Real or Imaginary)'' \<and> centerType r = Point"
    by (rule cone_example)
qed

subsection \<open>Classification, centre type and translation\<close>

lemma identitySolver_analyze:
  "analyzeSurface (identitySolver e) dt co =
     Inr (analyze dt \<lparr>eig_values = [e, e, e], eig_vectors = I3\<rparr> co)"
  by (simp add: analyzeSurface_def identitySolver_def well_shaped_def I3_def)

lemma identity_sortedValues:
  "sortedValues \<lparr>eig_values = [e, e, e], eig_vectors = I3\<rparr> = [e, e, e]"
  by (simp add: sortedValues_def sortedPairs_def sortPairs_def mkPairs_def upt3 I3_def)

lemma identity_well_shaped: "well_shaped \<lparr>eig_values = [e, e, e], eig_vectors = I3\<rparr>"
  by (simp add: well_shaped_def I3_def)

theorem rank3_surfaceType_witness:
  "eigen_contract mirrorSolver (matrixA coneCoeffs) \<and>
   (\<exists>r. analyzeSurface mirrorSolver det3 coneCoeffs = Inr r \<and>
        surfaceType r = ''Cone (Real or Imaginary)'' \<and> centerType r = Point) \<and>
   (\<exists>r. analyzeSurface (identitySolver 1) det3 sphereCoeffs = Inr r \<and>
        rank (eigenvalues r) = 3 \<and> surfaceType r = ''Ellipsoid'')"
proof -
  let ?ans = "\<lparr>eig_values = [1, 1, 1], eig_vectors = I3\<rparr>"
  let ?r = "analyze det3 ?ans sphereCoeffs"
  note t = rank3_surfaceType
  have a: "analyzeSurface (identitySolver 1) det3 sphereCoeffs = Inr ?r"
    by (rule identitySolver_analyze)
  have b: "identitySolver 1 (matrixA sphereCoeffs) = Some ?ans"
    by (simp add: identitySolver_def)
  have s: "squared det3 ?ans sphereCoeffs = \<lparr>S = [0, 0, 0], c_prime = - 1, linearVars = []\<rparr>"
    using squared_zeroJ [OF identity_well_shaped [of 1], of sphereCoeffs]
    by (simp add: vectorJ_def sphereCoeffs_def)
  have lin: "linearVars (squared det3 ?ans sphereCoeffs) = []" by (simp add: s)
  have rk: "rank (eigenvalues ?r) = 3"
    by (simp add: identity_sortedValues rank_def epsilon_def)
  from t [THEN conjunct1, rule_format, OF a b lin rk]
  have "surfaceType ?r = ''Ellipsoid''"
    by (simp add: Let_def s identity_sortedValues epsilon_def)
  with a rk have "\<exists>r. analyzeSurface (identitySolver 1) det3 sphereCoeffs = Inr r \<and>
        rank (eigenvalues r) = 3 \<and> surfaceType r = ''Ellipsoid''" by blast
  moreover note t [THEN conjunct2, rule_format, OF mirror_contract] mirror_contract
  ultimately show ?thesis by blast
qed

text \<open>
  Claim C8. The centre type is \<open>None\<close> when an axis was flagged parabolic, otherwise
  \<open>Point\<close> when the rank is 3, otherwise \<open>Line\<close>; \<open>Plane\<close> and \<open>Unknown\<close> are never
  returned. The all-zero input has rank 0 and no parabolic axis, centre type \<open>Line\<close> and
  surface type \<open>General Quadric\<close>, for any solver that keeps its contract.
\<close>

theorem centerType_cases:
  "(\<forall>eigs dt co r ans.
      analyzeSurface eigs dt co = Inr r \<longrightarrow> eigs (matrixA co) = Some ans \<longrightarrow>
      centerType r =
        (if linearVars (squared dt ans co) \<noteq> [] then NoneCenter
         else if rank (eigenvalues r) = 3 then Point else Line) \<and>
      centerType r \<noteq> Plane \<and> centerType r \<noteq> Unknown) \<and>
   (\<forall>eigs dt. eigen_contract eigs (matrixA zeroCoeffs) \<longrightarrow>
      (\<exists>r. analyzeSurface eigs dt zeroCoeffs = Inr r \<and> rank (eigenvalues r) = 0 \<and>
           centerType r = Line \<and> surfaceType r = ''General Quadric''))"
proof (intro conjI allI impI)
  fix eigs dt co r ans
  assume a: "analyzeSurface eigs dt co = Inr r" "eigs (matrixA co) = Some ans"
  from a have r: "r = analyze dt ans co"
    by (auto elim!: analyzeSurface_InrD)
  show "centerType r =
        (if linearVars (squared dt ans co) \<noteq> [] then NoneCenter
         else if rank (eigenvalues r) = 3 then Point else Line)"
    by (simp add: r centerOf_def)
  show "centerType r \<noteq> Plane" "centerType r \<noteq> Unknown"
    by (simp_all add: r centerOf_def)
next
  fix eigs :: eigensolver and dt :: determinant
  assume "eigen_contract eigs (matrixA zeroCoeffs)"
  then show "\<exists>r. analyzeSurface eigs dt zeroCoeffs = Inr r \<and> rank (eigenvalues r) = 0 \<and>
           centerType r = Line \<and> surfaceType r = ''General Quadric''"
    by (rule zero_example)
qed

theorem centerType_cases_witness:
  "eigen_contract (identitySolver 0) (matrixA zeroCoeffs) \<and>
   (\<exists>r. analyzeSurface (identitySolver 0) det3 zeroCoeffs = Inr r \<and> rank (eigenvalues r) = 0 \<and>
        centerType r = Line \<and> surfaceType r = ''General Quadric'') \<and>
   (\<exists>r. analyzeSurface mirrorSolver det3 coneCoeffs = Inr r \<and> centerType r = Point)"
proof -
  let ?ans = "\<lparr>eig_values = [1, 1, - 1], eig_vectors = [[0, 1, 0], [1, 0, 0], [0, 0, 1 :: real]]\<rparr>"
  let ?r = "analyze det3 ?ans coneCoeffs"
  note t = centerType_cases
  have a: "analyzeSurface mirrorSolver det3 coneCoeffs = Inr ?r" by (rule mirrorSolver_analyze)
  have b: "mirrorSolver (matrixA coneCoeffs) = Some ?ans" by (simp add: mirrorSolver_def)
  have w: "well_shaped ?ans" by (simp add: well_shaped_def)
  have s: "squared det3 ?ans coneCoeffs = \<lparr>S = [0, 0, 0], c_prime = 0, linearVars = []\<rparr>"
    using squared_zeroJ [OF w, of coneCoeffs] by (simp add: vectorJ_def coneCoeffs_def)
  have rk: "rank (sortedValues ?ans) = 3"
    by (simp add: sortedValues_def mirror_sortedPairs rank_def epsilon_def)
  from t [THEN conjunct1, rule_format, OF a b]
  have "centerType ?r = Point" by (simp add: s rk)
  with a have "\<exists>r. analyzeSurface mirrorSolver det3 coneCoeffs = Inr r \<and> centerType r = Point"
    by blast
  moreover note t [THEN conjunct2, rule_format, OF identity_contract_zero]
    identity_contract_zero
  ultimately show ?thesis by blast
qed

text \<open>
  Claim C2. The loop over the axes 0, 1, 2 applies to each axis the step the claim
  describes (\<open>spec_axis\<close>), threading the constant \<open>c'\<close> from \<open>c\<close>; the flagged axes are
  collected in index order. The loop runs on the sorted eigenvalues and on
  \<open>J' = M\<^sup>T J\<close>, and the translation vector is \<open>M S\<close>. On eigenvalues in descending
  order an axis flagged after another one finds the constant 0 and shifts by 0: the
  constant is consumed once. The loop of the first version of the file applies
  \<open>spec_axis_v1\<close>.
\<close>

theorem completeSquare_axes:
  "epsilon = 1 / 100000 \<and>
   (\<forall>l0 l1 l2 j0 j1 j2 c0.
      (case spec_axis l0 j0 c0 of (s0, c1, p0) \<Rightarrow>
       case spec_axis l1 j1 c1 of (s1, c2, p1) \<Rightarrow>
       case spec_axis l2 j2 c2 of (s2, c3, p2) \<Rightarrow>
         completeSquare [l0, l1, l2] [j0, j1, j2] c0 =
           \<lparr>S = [s0, s1, s2], c_prime = c3, linearVars = flagged p0 p1 p2\<rparr> \<and>
         (l1 \<le> l0 \<and> l2 \<le> l1 \<longrightarrow>
            (p0 \<and> p1 \<longrightarrow> c1 = 0 \<and> s1 = 0) \<and> (p0 \<and> p2 \<longrightarrow> c2 = 0 \<and> s2 = 0) \<and>
            (p1 \<and> p2 \<longrightarrow> c2 = 0 \<and> s2 = 0)))) \<and>
   (\<forall>dt ans co.
      squared dt ans co =
        completeSquare (sortedValues ans)
          (mat_vec (transposeM (rotationM dt ans)) (vectorJ co)) (c co) \<and>
      translationVector (analyze dt ans co) =
        mat_vec (rotationMatrix (analyze dt ans co)) (S (squared dt ans co)) \<and>
      (well_shaped ans \<longrightarrow>
         (\<exists>l0 l1 l2. sortedValues ans = [l0, l1, l2] \<and> l1 \<le> l0 \<and> l2 \<le> l1))) \<and>
   (\<forall>l0 l1 l2 j0 j1 j2 c0.
      (case spec_axis_v1 l0 j0 c0 of (s0, c1, p0) \<Rightarrow>
       case spec_axis_v1 l1 j1 c1 of (s1, c2, p1) \<Rightarrow>
       case spec_axis_v1 l2 j2 c2 of (s2, c3, p2) \<Rightarrow>
         completeSquare_v1 [l0, l1, l2] [j0, j1, j2] c0 =
           \<lparr>S = [s0, s1, s2], c_prime = c3, linearVars = flagged p0 p1 p2\<rparr>))"
proof (intro conjI allI)
  fix l0 l1 l2 j0 j1 j2 c0 :: real
  obtain s0 c1 p0 where a0: "spec_axis l0 j0 c0 = (s0, c1, p0)" by (cases "spec_axis l0 j0 c0")
  obtain s1 c2 p1 where a1: "spec_axis l1 j1 c1 = (s1, c2, p1)" by (cases "spec_axis l1 j1 c1")
  obtain s2 c3 p2 where a2: "spec_axis l2 j2 c2 = (s2, c3, p2)" by (cases "spec_axis l2 j2 c2")
  show "case spec_axis l0 j0 c0 of (s0, c1, p0) \<Rightarrow>
       case spec_axis l1 j1 c1 of (s1, c2, p1) \<Rightarrow>
       case spec_axis l2 j2 c2 of (s2, c3, p2) \<Rightarrow>
         completeSquare [l0, l1, l2] [j0, j1, j2] c0 =
           \<lparr>S = [s0, s1, s2], c_prime = c3, linearVars = flagged p0 p1 p2\<rparr> \<and>
         (l1 \<le> l0 \<and> l2 \<le> l1 \<longrightarrow>
            (p0 \<and> p1 \<longrightarrow> c1 = 0 \<and> s1 = 0) \<and> (p0 \<and> p2 \<longrightarrow> c2 = 0 \<and> s2 = 0) \<and>
            (p1 \<and> p2 \<longrightarrow> c2 = 0 \<and> s2 = 0))"
    unfolding a0 a1 a2 prod.case
    using completeSquare_closed [OF a0 a1 a2] constant_once [OF _ _ a0 a1 a2] by blast
  obtain t0 d1 q0 where b0: "spec_axis_v1 l0 j0 c0 = (t0, d1, q0)"
    by (cases "spec_axis_v1 l0 j0 c0")
  obtain t1 d2 q1 where b1: "spec_axis_v1 l1 j1 d1 = (t1, d2, q1)"
    by (cases "spec_axis_v1 l1 j1 d1")
  obtain t2 d3 q2 where b2: "spec_axis_v1 l2 j2 d2 = (t2, d3, q2)"
    by (cases "spec_axis_v1 l2 j2 d2")
  show "case spec_axis_v1 l0 j0 c0 of (s0, c1, p0) \<Rightarrow>
       case spec_axis_v1 l1 j1 c1 of (s1, c2, p1) \<Rightarrow>
       case spec_axis_v1 l2 j2 c2 of (s2, c3, p2) \<Rightarrow>
         completeSquare_v1 [l0, l1, l2] [j0, j1, j2] c0 =
           \<lparr>S = [s0, s1, s2], c_prime = c3, linearVars = flagged p0 p1 p2\<rparr>"
    unfolding b0 b1 b2 prod.case by (rule completeSquare_v1_closed [OF b0 b1 b2])
next
  fix dt ans co
  show "squared dt ans co =
        completeSquare (sortedValues ans)
          (mat_vec (transposeM (rotationM dt ans)) (vectorJ co)) (c co)"
    by (simp add: squared_def rotatedJ_def)
  show "translationVector (analyze dt ans co) =
        mat_vec (rotationMatrix (analyze dt ans co)) (S (squared dt ans co))"
    by simp
  show "well_shaped ans \<longrightarrow>
         (\<exists>l0 l1 l2. sortedValues ans = [l0, l1, l2] \<and> l1 \<le> l0 \<and> l2 \<le> l1)"
    by (blast elim: sortedValues3)
qed (rule epsilon_def)

theorem completeSquare_axes_witness:
  "completeSquare [1, 0, 0] [2, 3, 4] 5 =
     \<lparr>S = [- 1, - 4 / 3, 0], c_prime = 0, linearVars = [1, 2]\<rparr> \<and>
   completeSquare_v1 [1, 0, 0] [2, 3, 4] 5 =
     \<lparr>S = [- 2, - 1 / 6, 0], c_prime = 0, linearVars = [1, 2]\<rparr> \<and>
   (\<exists>l0 l1 l2. sortedValues \<lparr>eig_values = [0, 1, 0], eig_vectors = I3\<rparr> = [l0, l1, l2] \<and>
      l1 \<le> l0 \<and> l2 \<le> l1)"
proof -
  note t = completeSquare_axes
  have 1: "completeSquare [1, 0, 0] [2, 3, 4] 5 =
     \<lparr>S = [- 1, - 4 / 3, 0], c_prime = 0, linearVars = [1, 2]\<rparr>"
    using t [THEN conjunct2, THEN conjunct1, rule_format, of 1 0 0 2 3 4 5]
    by (simp add: spec_axis_def epsilon_def flagged_def)
  have 2: "completeSquare_v1 [1, 0, 0] [2, 3, 4] 5 =
     \<lparr>S = [- 2, - 1 / 6, 0], c_prime = 0, linearVars = [1, 2]\<rparr>"
    using t [THEN conjunct2, THEN conjunct2, THEN conjunct2, rule_format, of 1 0 0 2 3 4 5]
    by (simp add: spec_axis_v1_def epsilon_def flagged_def)
  have w: "well_shaped \<lparr>eig_values = [0, 1, 0], eig_vectors = I3\<rparr>"
    by (simp add: well_shaped_def I3_def)
  have 3: "\<exists>l0 l1 l2. sortedValues \<lparr>eig_values = [0, 1, 0], eig_vectors = I3\<rparr> = [l0, l1, l2] \<and>
      l1 \<le> l0 \<and> l2 \<le> l1"
    using t [THEN conjunct2, THEN conjunct2, THEN conjunct1, rule_format, THEN conjunct2,
        THEN conjunct2, rule_format, OF w] .
  from 1 2 3 show ?thesis by blast
qed

subsection \<open>The standard form\<close>

lemma quadTerm_push:
  "quadTerm terms lam i =
     (if \<bar>lam\<bar> > epsilon
      then pushTerm terms (lam, (if elide_near \<bar>lam\<bar> then '''' else toFixed \<bar>lam\<bar> 2) @ vars ! i @ ''^2'')
      else terms)"
  by (simp add: quadTerm_def pushTerm_def elide_near_def Let_def)

lemma linTerm_push:
  "linTerm J terms idx = pushTerm terms (J ! idx, toFixed \<bar>J ! idx\<bar> 2 @ vars ! idx)"
  by (simp add: linTerm_def pushTerm_def Let_def)

lemma constTerm_push:
  "constTerm terms cp =
     (if \<bar>cp\<bar> > epsilon then pushTerm terms (cp, toFixed \<bar>cp\<bar> 2) else terms)"
  by (simp add: constTerm_def pushTerm_def Let_def)

lemma foldl_linTerm: "foldl (linTerm J) terms lin =
    foldl pushTerm terms (map (\<lambda>idx. (J ! idx, toFixed \<bar>J ! idx\<bar> 2 @ vars ! idx)) lin)"
  by (induction lin arbitrary: terms) (simp_all add: linTerm_push)

lemma foldl_quadTerm:
  "foldl (\<lambda>terms (lam, i). quadTerm terms lam i) terms (zip evs is) =
   foldl pushTerm terms
     (map (\<lambda>(lam, i). (lam, (if elide_near \<bar>lam\<bar> then '''' else toFixed \<bar>lam\<bar> 2) @ vars ! i @ ''^2''))
        (filter (\<lambda>(lam, i). \<bar>lam\<bar> > epsilon) (zip evs is)))"
proof (induction evs arbitrary: terms "is")
  case Nil
  then show ?case by simp
next
  case (Cons e es)
  show ?case
  proof (cases "is")
    case Nil
    then show ?thesis by simp
  next
    case (Cons j js)
    show ?thesis
      unfolding Cons using Cons.IH [of _ js] by (simp add: quadTerm_push)
  qed
qed

lemma buildTerms_items:
  "buildTerms [l0, l1, l2] J lin cp =
     foldl pushTerm [] (term_items elide_near [l0, l1, l2] J lin cp)"
proof -
  have q: "map (\<lambda>(lam, i). (lam, (if elide_near \<bar>lam\<bar> then '''' else toFixed \<bar>lam\<bar> 2) @ vars ! i @ ''^2''))
        (filter (\<lambda>(lam, i). \<bar>lam\<bar> > epsilon) (zip [l0, l1, l2] [0..<length [l0, l1, l2]])) =
      map (\<lambda>i. ([l0, l1, l2] ! i,
            (if elide_near \<bar>[l0, l1, l2] ! i\<bar> then '''' else toFixed \<bar>[l0, l1, l2] ! i\<bar> 2) @ vars ! i @ ''^2''))
       (filter (\<lambda>i. \<bar>[l0, l1, l2] ! i\<bar> > epsilon) [0..<3])"
    by (simp add: upt3 numeral_3_eq_3)
  show ?thesis
    unfolding buildTerms_def Let_def foldl_quadTerm foldl_linTerm q term_items_def
    by (simp add: constTerm_push)
qed

lemma foldl_pushTerm_nonempty:
  "terms \<noteq> [] \<Longrightarrow> foldl pushTerm terms items = terms @ map (termOf False) items"
proof (induction items arbitrary: terms)
  case Nil
  then show ?case by simp
next
  case (Cons x xs)
  have "pushTerm terms x = terms @ [termOf False x]"
    using Cons.prems by (simp add: pushTerm_def termOf_def)
  then show ?case using Cons.IH [of "pushTerm terms x"] by simp
qed

lemma foldl_pushTerm_empty:
  "foldl pushTerm [] (x # xs) = termOf True x # map (termOf False) xs"
proof -
  have "pushTerm [] x = [termOf True x]"
    by (simp add: pushTerm_def termOf_def)
  then show ?thesis
    using foldl_pushTerm_nonempty [of "[termOf True x]" xs] by simp
qed

lemma join_concat: "join sep (t # ts) = t @ concat (map (\<lambda>u. sep @ u) ts)"
  by (induction ts arbitrary: t) simp_all

lemma trim_solid: "solid s \<Longrightarrow> trim s = s"
proof -
  assume s: "solid s"
  then obtain h t where ht: "s = h # t" "\<not> is_ws h"
    by (cases s) (auto simp: solid_def)
  from s have "rev s \<noteq> []" "\<not> is_ws (hd (rev s))"
    by (simp_all add: solid_def hd_rev)
  then obtain g u where gu: "rev s = g # u" "\<not> is_ws g"
    by (cases "rev s") auto
  have "dropWhile is_ws s = s" using ht by simp
  moreover have "dropWhile is_ws (rev s) = rev s" using gu by simp
  ultimately show ?thesis by (simp add: trim_def)
qed

lemma trim_space_solid: "solid s \<Longrightarrow> trim (CHR '' '' # s) = s"
proof -
  assume s: "solid s"
  have "dropWhile is_ws (CHR '' '' # s) = dropWhile is_ws s"
    by (simp add: is_ws_def)
  then have "trim (CHR '' '' # s) = trim s" by (simp add: trim_def)
  with trim_solid [OF s] show ?thesis by simp
qed

lemma solid_append: "solid a \<Longrightarrow> solid b \<Longrightarrow> solid (a @ m @ b)"
  by (auto simp: solid_def)

lemma solid_append2: "solid a \<Longrightarrow> solid b \<Longrightarrow> solid (a @ b)"
  by (auto simp: solid_def)

lemma solid_cons: "\<not> is_ws ch \<Longrightarrow> solid b \<Longrightarrow> solid (ch # m @ b)"
  by (auto simp: solid_def)

lemma digit_not_ws: "d < 10 \<Longrightarrow> \<not> is_ws (digit_char d)"
proof -
  assume "d < 10"
  then have "d \<in> {0, 1, 2, 3, 4, 5, 6, 7, 8, 9}" by auto
  then show ?thesis
    by (auto simp: digit_char_def is_ws_def)
qed

lemma num_toString_chars: "ch \<in> set (num_toString n) \<Longrightarrow> \<not> is_ws ch"
proof (induction n arbitrary: ch rule: num_toString.induct)
  case (1 n)
  show ?case
  proof (cases "n < 10")
    case True
    with "1.prems" have "ch = digit_char n"
      by (subst (asm) num_toString.simps) simp
    with True show ?thesis by (simp add: digit_not_ws)
  next
    case False
    with "1.prems" have "ch \<in> set (num_toString (n div 10)) \<or> ch = digit_char (n mod 10)"
      by (subst (asm) num_toString.simps) auto
    then show ?thesis
      using "1.IH" [OF False] by (auto simp: digit_not_ws)
  qed
qed

lemma pad_zeros_chars:
  assumes "ch \<in> set (pad_zeros k (num_toString n))"
  shows "\<not> is_ws ch"
proof -
  from assms have "ch = CHR ''0'' \<or> ch \<in> set (num_toString n)"
    by (auto simp: pad_zeros_def)
  then show ?thesis
  proof
    assume "ch = CHR ''0''"
    then show ?thesis by (simp add: is_ws_def)
  next
    assume "ch \<in> set (num_toString n)"
    then show ?thesis by (rule num_toString_chars)
  qed
qed

lemma pad_zeros_length: "k \<le> length (pad_zeros k s)"
  by (simp add: pad_zeros_def)

lemma toFixed2_solid:
  assumes "0 \<le> x"
  shows "solid (toFixed x 2)"
proof -
  define d where "d = pad_zeros (2 + 1) (num_toString (nat (round (x * 10 ^ 2))))"
  have len: "3 \<le> length d" unfolding d_def using pad_zeros_length [of 3] by simp
  have ch: "\<not> is_ws ch" if "ch \<in> set d" for ch
    using that unfolding d_def by (rule pad_zeros_chars)
  have t: "toFixed x 2 = take (length d - 2) d @ ''.'' @ drop (length d - 2) d"
    using toFixed_pos [OF assms, of 2] by (simp add: d_def Let_def)
  have a: "take (length d - 2) d \<noteq> []" using len by auto
  have b: "drop (length d - 2) d \<noteq> []" using len by auto
  have "hd (take (length d - 2) d) \<in> set d"
    using a by (meson hd_in_set in_set_takeD)
  then have 1: "\<not> is_ws (hd (take (length d - 2) d))" by (rule ch)
  have "last (drop (length d - 2) d) \<in> set d"
    using b by (meson last_in_set in_set_dropD)
  then have 2: "\<not> is_ws (last (drop (length d - 2) d))" by (rule ch)
  show ?thesis
    unfolding t solid_def using a b 1 2 by simp
qed

lemma vars_solid: "i < 3 \<Longrightarrow> solid (vars ! i)"
proof -
  assume "i < 3"
  then have "i = 0 \<or> i = 1 \<or> i = 2" by auto
  then show ?thesis by (auto simp: vars_def solid_def is_ws_def)
qed

lemma squared_solid: "solid ''^2''"
  by (simp add: solid_def is_ws_def)

lemma tail_solid:
  assumes "solid b0" and "list_all (\<lambda>item. solid (snd item)) rest"
  shows "solid (b0 @ concat (map (\<lambda>(w, d). (if w < 0 then '' - '' else '' + '') @ d) rest))"
  using assms
proof (induction rest arbitrary: b0)
  case Nil
  then show ?case by simp
next
  case (Cons x xs)
  obtain w d where x: "x = (w, d)" by (cases x)
  from Cons.prems have d: "solid d" and r: "list_all (\<lambda>item. solid (snd item)) xs"
    by (simp_all add: x)
  let ?tail = "concat (map (\<lambda>(w, d). (if w < 0 then '' - '' else '' + '') @ d) xs)"
  have "solid (d @ ?tail)" using d r by (rule Cons.IH)
  then have "solid (b0 @ (if w < 0 then '' - '' else '' + '') @ (d @ ?tail))"
    using Cons.prems(1) by (intro solid_append)
  then show ?case by (simp add: x)
qed

lemma render_items:
  assumes "list_all (\<lambda>item. solid (snd item)) items"
  shows "(let terms = foldl pushTerm [] items
          in if length terms = 0 then ''0 = 0'' else trim (join '' '' terms) @ '' = 0'') =
         spec_standardForm items"
proof (cases items)
  case Nil
  then show ?thesis by (simp add: spec_standardForm_def)
next
  case (Cons x rest)
  obtain v b where x: "x = (v, b)" by (cases x)
  let ?tail = "concat (map (\<lambda>(w, d). (if w < 0 then '' - '' else '' + '') @ d) rest)"
  from assms have b: "solid b" and r: "list_all (\<lambda>item. solid (snd item)) rest"
    by (simp_all add: Cons x)
  have w: "solid (b @ ?tail)" using b r by (rule tail_solid)
  have t: "foldl pushTerm [] items = termOf True (v, b) # map (termOf False) rest"
    unfolding Cons x by (rule foldl_pushTerm_empty)
  have c: "concat (map (\<lambda>u. '' '' @ u) (map (termOf False) rest)) = ?tail"
    by (rule arg_cong [where f = concat]) (auto simp: termOf_def)
  have j: "join '' '' (termOf True (v, b) # map (termOf False) rest) =
      (if v < 0 then ''-'' else '''') @ '' '' @ b @ ?tail"
    unfolding join_concat c by (simp add: termOf_def)
  have "trim ((if v < 0 then ''-'' else '''') @ '' '' @ b @ ?tail) =
      (if v < 0 then ''- '' else '''') @ b @ ?tail"
  proof (cases "v < 0")
    case True
    have "solid (CHR ''-'' # '' '' @ (b @ ?tail))"
      using w by (intro solid_cons) (simp add: is_ws_def)
    from trim_solid [OF this] True show ?thesis by simp
  next
    case False
    from trim_space_solid [OF w] False show ?thesis by simp
  qed
  then show ?thesis
    unfolding t j Let_def by (simp add: spec_standardForm_def Cons x)
qed

lemma term_items_solid:
  assumes "list_all (\<lambda>i. i < 3) lin"
  shows "list_all (\<lambda>item. solid (snd item)) (term_items elide_near evs J lin cp)"
proof -
  have q: "solid ((if elide_near \<bar>evs ! i\<bar> then '''' else toFixed \<bar>evs ! i\<bar> 2) @ vars ! i @ ''^2'')"
    if "i < 3" for i
  proof (cases "elide_near \<bar>evs ! i\<bar>")
    case True
    then show ?thesis
      using solid_append2 [OF vars_solid [OF that] squared_solid] by simp
  next
    case False
    then show ?thesis
      using solid_append [OF toFixed2_solid squared_solid, of "\<bar>evs ! i\<bar>" "vars ! i"] by simp
  qed
  have l: "solid (toFixed \<bar>J ! i\<bar> 2 @ vars ! i)" if "i < 3" for i
    using solid_append2 [OF toFixed2_solid vars_solid [OF that], of "\<bar>J ! i\<bar>"] by simp
  have k: "solid (toFixed \<bar>cp\<bar> 2)" by (rule toFixed2_solid) simp
  show ?thesis
    unfolding term_items_def using assms q l k
    by (auto simp: list_all_iff)
qed

lemma render_spec:
  assumes "list_all (\<lambda>i. i < 3) lin"
  shows "renderStandardForm [l0, l1, l2] J lin cp =
         spec_standardForm (term_items elide_near [l0, l1, l2] J lin cp)"
  unfolding renderStandardForm_def buildTerms_items
  by (rule render_items [OF term_items_solid [OF assms]])

lemma flagged_lt3: "list_all (\<lambda>i. i < 3) (flagged p0 p1 p2)"
  by (simp add: flagged_def)

lemma rotatedJ_shape:
  assumes "well_shaped ans"
  obtains j0 j1 j2 where "rotatedJ dt ans co = [j0, j1, j2]"
proof -
  from assms obtain m00 m01 m02 m10 m11 m12 m20 m21 m22 where
    "rotationM dt ans = [[m00, m01, m02], [m10, m11, m12], [m20, m21, m22]]"
    by (rule rotationM_shape)
  then show thesis
    using that by (simp add: rotatedJ_def vectorJ_def)
qed

lemma linearVars_lt3:
  assumes "well_shaped ans"
  shows "list_all (\<lambda>i. i < 3) (linearVars (squared dt ans co))"
proof -
  from assms obtain l0 l1 l2 where l: "sortedValues ans = [l0, l1, l2]"
    by (rule sortedValues3)
  from assms obtain j0 j1 j2 where j: "rotatedJ dt ans co = [j0, j1, j2]"
    by (rule rotatedJ_shape)
  obtain s0 c1 p0 where a0: "spec_axis l0 j0 (c co) = (s0, c1, p0)"
    by (cases "spec_axis l0 j0 (c co)")
  obtain s1 c2 p1 where a1: "spec_axis l1 j1 c1 = (s1, c2, p1)" by (cases "spec_axis l1 j1 c1")
  obtain s2 c3 p2 where a2: "spec_axis l2 j2 c2 = (s2, c3, p2)" by (cases "spec_axis l2 j2 c2")
  show ?thesis
    unfolding squared_def l j completeSquare_closed [OF a0 a1 a2]
    by (simp add: flagged_lt3)
qed

lemma standardForm_spec:
  assumes "well_shaped ans"
  shows "standardForm (analyze dt ans co) =
     spec_standardForm (term_items elide_near (sortedValues ans) (rotatedJ dt ans co)
       (linearVars (squared dt ans co)) (c_prime (squared dt ans co)))"
proof -
  from assms obtain l0 l1 l2 where l: "sortedValues ans = [l0, l1, l2]"
    by (rule sortedValues3)
  show ?thesis
    unfolding analyze_simps l by (rule render_spec [OF linearVars_lt3 [OF assms]])
qed

lemma toFixed_one: "toFixed 1 2 = ''1.00''"
proof -
  have r: "round ((1 :: real) * 10 ^ 2) = int 100" by simp
  have n: "num_toString 100 = ''100''" by (simp add: num_toString_eval)
  have p: "pad_zeros (2 + 1) ''100'' = ''100''" by (simp add: pad_zeros_def)
  have "toFixed 1 2 = take (length ''100'' - 2) ''100'' @ ''.'' @ drop (length ''100'' - 2) ''100''"
    by (rule toFixed_digits [OF _ _ r n p]) simp_all
  then show ?thesis by simp
qed

lemma toFixed_nearOne: "toFixed (100005 / 100000) 2 = ''1.00''"
proof -
  have "\<bar>(100005 / 100000 :: real) * 10 ^ 2 - of_int 100\<bar> < 1 / 2" by simp
  then have "round ((100005 / 100000 :: real) * 10 ^ 2) = 100" by (rule round_unique_near)
  then have r: "round ((100005 / 100000 :: real) * 10 ^ 2) = int 100" by simp
  have n: "num_toString 100 = ''100''" by (simp add: num_toString_eval)
  have p: "pad_zeros (2 + 1) ''100'' = ''100''" by (simp add: pad_zeros_def)
  have "toFixed (100005 / 100000) 2 =
      take (length ''100'' - 2) ''100'' @ ''.'' @ drop (length ''100'' - 2) ''100''"
    by (rule toFixed_digits [OF _ _ r n p]) simp_all
  then show ?thesis by simp
qed

lemma sphere_items:
  "spec_standardForm (term_items elide_near [1, 1, 1] [0, 0, 0] [] (- 1)) =
     ''x'^2 + y'^2 + z'^2 - 1.00 = 0''"
  by (simp add: term_items_def spec_standardForm_def elide_near_def epsilon_def upt3 vars_def
      toFixed_one)

lemma sphere_example:
  assumes "eigen_contract eigs (matrixA sphereCoeffs)"
  shows "\<exists>r. analyzeSurface eigs dt sphereCoeffs = Inr r \<and> eigenvalues r = [1, 1, 1] \<and>
           standardForm r = ''x'^2 + y'^2 + z'^2 - 1.00 = 0''"
proof -
  from assms obtain ans where a: "eigs (matrixA sphereCoeffs) = Some ans" "well_shaped ans"
    and e: "\<forall>e\<in>set (eig_values ans).
       \<exists>x y z. x * x + y * y + z * z = 1 \<and>
         mat_vec (matrixA sphereCoeffs) [x, y, z] = [e * x, e * y, e * z]"
    by (rule eigen_contractD)
  have v: "e = 1" if "e \<in> set (eig_values ans)" for e
    using e that contract_sphere_values by blast
  have l: "sortedValues ans = [1, 1, 1]"
    using a(2) v by (rule sortedValues_const)
  have j: "rotatedJ dt ans sphereCoeffs = [0, 0, 0]"
    by (rule rotatedJ_zero [OF a(2)]) (simp add: vectorJ_def sphereCoeffs_def)
  have s: "squared dt ans sphereCoeffs = \<lparr>S = [0, 0, 0], c_prime = - 1, linearVars = []\<rparr>"
    using squared_zeroJ [OF a(2), of sphereCoeffs] by (simp add: vectorJ_def sphereCoeffs_def)
  have "analyzeSurface eigs dt sphereCoeffs = Inr (analyze dt ans sphereCoeffs)"
    by (simp add: analyzeSurface_def a)
  moreover have "standardForm (analyze dt ans sphereCoeffs) = ''x'^2 + y'^2 + z'^2 - 1.00 = 0''"
    unfolding standardForm_spec [OF a(2)] l j s by (simp add: sphere_items)
  moreover have "eigenvalues (analyze dt ans sphereCoeffs) = [1, 1, 1]"
    by (simp add: l)
  ultimately show ?thesis by blast
qed

text \<open>
  Claim C4, as the program has it. When every number it renders is below \<open>10^21\<close> in
  magnitude, the standard form that \<open>analyzeSurface\<close> returns is the rendering the
  specification words (\<open>spec_standardForm\<close> of \<open>term_items\<close>), where a quadratic
  coefficient is left out when it is within \<open>1e-4\<close> of 1. For the unit sphere and any
  solver that keeps its contract it is \<open>x'^2 + y'^2 + z'^2 - 1.00 = 0\<close>.
\<close>

theorem standardForm_rendering:
  "(\<forall>eigs dt co r ans.
      analyzeSurface eigs dt co = Inr r \<longrightarrow> eigs (matrixA co) = Some ans \<longrightarrow>
      list_all (\<lambda>v. v < 10 ^ 21)
        (rendered elide_near (eigenvalues r)
          (mat_vec (transposeM (rotationMatrix r)) (vectorJ co))
          (linearVars (squared dt ans co)) (c_prime (squared dt ans co))) \<longrightarrow>
      standardForm r =
        spec_standardForm (term_items elide_near (eigenvalues r)
          (mat_vec (transposeM (rotationMatrix r)) (vectorJ co))
          (linearVars (squared dt ans co)) (c_prime (squared dt ans co)))) \<and>
   (\<forall>eigs dt. eigen_contract eigs (matrixA sphereCoeffs) \<longrightarrow>
      (\<exists>r. analyzeSurface eigs dt sphereCoeffs = Inr r \<and> eigenvalues r = [1, 1, 1] \<and>
           standardForm r = ''x'^2 + y'^2 + z'^2 - 1.00 = 0''))"
proof (intro conjI allI impI)
  fix eigs dt co r ans
  assume a: "analyzeSurface eigs dt co = Inr r" "eigs (matrixA co) = Some ans"
  from a have w: "well_shaped ans" and r: "r = analyze dt ans co"
    by (auto elim!: analyzeSurface_InrD)
  show "standardForm r =
        spec_standardForm (term_items elide_near (eigenvalues r)
          (mat_vec (transposeM (rotationMatrix r)) (vectorJ co))
          (linearVars (squared dt ans co)) (c_prime (squared dt ans co)))"
    unfolding r standardForm_spec [OF w] by (simp add: rotatedJ_def)
next
  fix eigs :: eigensolver and dt :: determinant
  assume "eigen_contract eigs (matrixA sphereCoeffs)"
  then show "\<exists>r. analyzeSurface eigs dt sphereCoeffs = Inr r \<and> eigenvalues r = [1, 1, 1] \<and>
           standardForm r = ''x'^2 + y'^2 + z'^2 - 1.00 = 0''"
    by (rule sphere_example)
qed

theorem standardForm_rendering_witness:
  "eigen_contract (identitySolver 1) (matrixA sphereCoeffs) \<and>
   (\<exists>r. analyzeSurface (identitySolver 1) det3 sphereCoeffs = Inr r \<and> eigenvalues r = [1, 1, 1] \<and>
        standardForm r = ''x'^2 + y'^2 + z'^2 - 1.00 = 0'') \<and>
   rendered elide_near [1, 1, 1] [0, 0, 0] [] (- 1) = [1] \<and>
   standardForm (analyze det3 \<lparr>eig_values = [1, 1, 1], eig_vectors = I3\<rparr> sphereCoeffs) =
     spec_standardForm (term_items elide_near [1, 1, 1] [0, 0, 0] [] (- 1))"
proof -
  let ?ans = "\<lparr>eig_values = [1, 1, 1], eig_vectors = I3\<rparr>"
  note t = standardForm_rendering
  have a: "analyzeSurface (identitySolver 1) det3 sphereCoeffs = Inr (analyze det3 ?ans sphereCoeffs)"
    by (rule identitySolver_analyze)
  have b: "identitySolver 1 (matrixA sphereCoeffs) = Some ?ans"
    by (simp add: identitySolver_def)
  have l: "sortedValues ?ans = [1, 1, 1]"
    by (rule identity_sortedValues)
  have j: "rotatedJ det3 ?ans sphereCoeffs = [0, 0, 0]"
    by (rule rotatedJ_zero [OF identity_well_shaped]) (simp add: vectorJ_def sphereCoeffs_def)
  have s: "squared det3 ?ans sphereCoeffs = \<lparr>S = [0, 0, 0], c_prime = - 1, linearVars = []\<rparr>"
    using squared_zeroJ [OF identity_well_shaped [of 1], of sphereCoeffs]
    by (simp add: vectorJ_def sphereCoeffs_def)
  have n: "rendered elide_near [1, 1, 1] [0, 0, 0] [] (- 1) = [1]"
    by (simp add: rendered_def elide_near_def epsilon_def upt3)
  have "list_all (\<lambda>v. v < 10 ^ 21)
      (rendered elide_near (eigenvalues (analyze det3 ?ans sphereCoeffs))
        (mat_vec (transposeM (rotationMatrix (analyze det3 ?ans sphereCoeffs)))
          (vectorJ sphereCoeffs))
        (linearVars (squared det3 ?ans sphereCoeffs)) (c_prime (squared det3 ?ans sphereCoeffs)))"
    using j by (simp add: l s rotatedJ_def n)
  from t [THEN conjunct1, rule_format, OF a b this]
  have "standardForm (analyze det3 ?ans sphereCoeffs) =
     spec_standardForm (term_items elide_near [1, 1, 1] [0, 0, 0] [] (- 1))"
    using j by (simp add: l s rotatedJ_def)
  moreover note t [THEN conjunct2, rule_format, OF identity_contract_sphere]
    identity_contract_sphere n
  ultimately show ?thesis by blast
qed

text \<open>
  The claim as it is stated elides the coefficient 1 only. On the input
  \<open>1.00005 x^2 = 0\<close>, whose eigenvalues are \<open>1.00005, 0, 0\<close>, that rendering is
  \<open>1.00x'^2 = 0\<close>, of the one number \<open>1.00005\<close>, and the program returns \<open>x'^2 = 0\<close>.
\<close>

theorem standardForm_elision_counterexample:
  "analyzeSurface nearOneSolver det3 nearOneCoeffs = Inr (analyze det3 nearOneAnswer nearOneCoeffs) \<and>
   eigen_contract nearOneSolver (matrixA nearOneCoeffs) \<and>
   eigenvalues (analyze det3 nearOneAnswer nearOneCoeffs) = [100005 / 100000, 0, 0] \<and>
   rendered elide_exact [100005 / 100000, 0, 0] [0, 0, 0] [] 0 = [100005 / 100000] \<and>
   rotatedJ det3 nearOneAnswer nearOneCoeffs = [0, 0, 0] \<and>
   linearVars (squared det3 nearOneAnswer nearOneCoeffs) = [] \<and>
   c_prime (squared det3 nearOneAnswer nearOneCoeffs) = 0 \<and>
   spec_standardForm (term_items elide_exact [100005 / 100000, 0, 0] [0, 0, 0] [] 0) =
     ''1.00x'^2 = 0'' \<and>
   standardForm (analyze det3 nearOneAnswer nearOneCoeffs) = ''x'^2 = 0'' \<and>
   standardForm (analyze det3 nearOneAnswer nearOneCoeffs) \<noteq>
     spec_standardForm (term_items elide_exact
       (eigenvalues (analyze det3 nearOneAnswer nearOneCoeffs))
       (rotatedJ det3 nearOneAnswer nearOneCoeffs)
       (linearVars (squared det3 nearOneAnswer nearOneCoeffs))
       (c_prime (squared det3 nearOneAnswer nearOneCoeffs)))"
proof -
  have a: "analyzeSurface nearOneSolver det3 nearOneCoeffs = Inr (analyze det3 nearOneAnswer nearOneCoeffs)"
    by (simp add: analyzeSurface_def nearOneSolver_def nearOneAnswer_def well_shaped_def I3_def)
  have k: "eigen_contract nearOneSolver (matrixA nearOneCoeffs)"
    by (simp add: eigen_contract_def nearOneSolver_def nearOneAnswer_def well_shaped_def I3_def
        upt3 column_def matrixA_def nearOneCoeffs_def)
  have w: "well_shaped nearOneAnswer"
    by (simp add: nearOneAnswer_def well_shaped_def I3_def)
  have l: "sortedValues nearOneAnswer = [100005 / 100000, 0, 0]"
    by (simp add: sortedValues_def sortedPairs_def sortPairs_def mkPairs_def upt3 I3_def
        nearOneAnswer_def)
  have j: "rotatedJ det3 nearOneAnswer nearOneCoeffs = [0, 0, 0]"
    by (rule rotatedJ_zero [OF w]) (simp add: vectorJ_def nearOneCoeffs_def)
  have s: "squared det3 nearOneAnswer nearOneCoeffs = \<lparr>S = [0, 0, 0], c_prime = 0, linearVars = []\<rparr>"
    using squared_zeroJ [OF w, of nearOneCoeffs] by (simp add: vectorJ_def nearOneCoeffs_def)
  have claimed: "spec_standardForm (term_items elide_exact [100005 / 100000, 0, 0] [0, 0, 0] [] 0) =
     ''1.00x'^2 = 0''"
    by (simp add: term_items_def spec_standardForm_def elide_exact_def epsilon_def upt3 vars_def
        toFixed_nearOne toFixed_nearOne [simplified])
  have "spec_standardForm (term_items elide_near [100005 / 100000, 0, 0] [0, 0, 0] [] 0) =
     ''x'^2 = 0''"
    by (simp add: term_items_def spec_standardForm_def elide_near_def epsilon_def upt3 vars_def)
  then have code: "standardForm (analyze det3 nearOneAnswer nearOneCoeffs) = ''x'^2 = 0''"
    unfolding standardForm_spec [OF w] l j s by simp
  have e: "eigenvalues (analyze det3 nearOneAnswer nearOneCoeffs) = [100005 / 100000, 0, 0]"
    by (simp add: l)
  have lv: "linearVars (squared det3 nearOneAnswer nearOneCoeffs) = []"
    and cp: "c_prime (squared det3 nearOneAnswer nearOneCoeffs) = 0"
    by (simp_all add: s)
  have "standardForm (analyze det3 nearOneAnswer nearOneCoeffs) \<noteq>
     spec_standardForm (term_items elide_exact
       (eigenvalues (analyze det3 nearOneAnswer nearOneCoeffs))
       (rotatedJ det3 nearOneAnswer nearOneCoeffs)
       (linearVars (squared det3 nearOneAnswer nearOneCoeffs))
       (c_prime (squared det3 nearOneAnswer nearOneCoeffs)))"
    unfolding e j lv cp code claimed by simp
  moreover have n: "rendered elide_exact [100005 / 100000, 0, 0] [0, 0, 0] [] 0 = [100005 / 100000]"
    by (simp add: rendered_def elide_exact_def epsilon_def upt3)
  ultimately show ?thesis using a k e j lv cp claimed code by (intro conjI)
qed

end
